theory Spec2Isabelle
  imports Main "HOL-Library.AList" "HOL-Library.Char_ord" "HOL-Library.List_Lexorder"
begin

section \<open>Go strings, UTF-8 and the JSON codec used by the catalog store\<close>

text \<open>
  A Go \<^verbatim>\<open>string\<close> is a sequence of bytes, not necessarily valid UTF-8; it is modelled
  as \<^typ>\<open>string\<close> (a list of 8-bit characters). With \<^verbatim>\<open>Char_ord\<close> and
  \<^verbatim>\<open>List_Lexorder\<close> the order on \<^typ>\<open>string\<close> is the bytewise lexicographic order
  of Go's string comparison, which \<^verbatim>\<open>sort.Strings\<close> and the map encoder of
  \<^verbatim>\<open>encoding/json\<close> both use.

  \<^verbatim>\<open>main.go\<close> calls into the Go standard library (\<^verbatim>\<open>unicode/utf8\<close>,
  \<^verbatim>\<open>encoding/json\<close>, \<^verbatim>\<open>strings\<close>, \<^verbatim>\<open>os\<close>). The parts it relies on are
  modelled in this section after the library's documented behaviour; masks and shifts
  of the library are written as \<open>mod\<close>, \<open>div\<close> and multiplication on \<^typ>\<open>nat\<close>
  (no value here exceeds 21 bits).
\<close>

abbreviation byte :: "char \<Rightarrow> nat" where
  "byte c \<equiv> of_char c"

definition dq :: char where
  "dq = CHR 0x22"

definition bs :: char where
  "bs = CHR 0x5C"

definition nl :: char where
  "nl = CHR 0x0A"

subsection \<open>unicode/utf8\<close>

definition RuneError :: nat where
  "RuneError = 0xFFFD"

text \<open>
  The table \<^verbatim>\<open>first\<close> of \<^verbatim>\<open>unicode/utf8\<close>: the length a lead byte announces
  (0 for a byte that cannot start a sequence), and the range accepted for the second
  byte (\<^verbatim>\<open>acceptRanges\<close>).
\<close>

definition lead_size :: "nat \<Rightarrow> nat" where
  "lead_size p0 =
     (if p0 < 0x80 then 1
      else if p0 < 0xC2 then 0
      else if p0 < 0xE0 then 2
      else if p0 < 0xF0 then 3
      else if p0 < 0xF5 then 4
      else 0)"

definition accept_lo :: "nat \<Rightarrow> nat" where
  "accept_lo p0 = (if p0 = 0xE0 then 0xA0 else if p0 = 0xF0 then 0x90 else 0x80)"

definition accept_hi :: "nat \<Rightarrow> nat" where
  "accept_hi p0 = (if p0 = 0xED then 0x9F else if p0 = 0xF4 then 0x8F else 0xBF)"

definition cont :: "nat \<Rightarrow> bool" where
  "cont b = (0x80 \<le> b \<and> b \<le> 0xBF)"

text \<open>
  \<^verbatim>\<open>utf8.DecodeRune\<close>: the first rune of the bytes and its width; \<open>(RuneError, 1)\<close>
  for a byte that starts no valid encoding (a missing byte shows as the empty rest).
\<close>

fun DecodeRune :: "string \<Rightarrow> nat \<times> nat" where
  "DecodeRune [] = (RuneError, 0)"
| "DecodeRune (c0 # p) =
     (let p0 = byte c0; sz = lead_size p0 in
      if sz = 1 then (p0, 1)
      else if sz = 0 then (RuneError, 1)
      else (case p of
        [] \<Rightarrow> (RuneError, 1)
      | c1 # p1 \<Rightarrow>
          let b1 = byte c1 in
          if b1 < accept_lo p0 \<or> accept_hi p0 < b1 then (RuneError, 1)
          else if sz \<le> 2 then ((p0 mod 32) * 64 + b1 mod 64, 2)
          else (case p1 of
            [] \<Rightarrow> (RuneError, 1)
          | c2 # p2 \<Rightarrow>
              let b2 = byte c2 in
              if \<not> cont b2 then (RuneError, 1)
              else if sz \<le> 3 then ((p0 mod 16) * 4096 + (b1 mod 64) * 64 + b2 mod 64, 3)
              else (case p2 of
                [] \<Rightarrow> (RuneError, 1)
              | c3 # p3 \<Rightarrow>
                  let b3 = byte c3 in
                  if \<not> cont b3 then (RuneError, 1)
                  else ((p0 mod 8) * 262144 + (b1 mod 64) * 4096 + (b2 mod 64) * 64
                          + b3 mod 64, 4)))))"

declare DecodeRune.simps [simp del]

text \<open>\<^verbatim>\<open>utf8.EncodeRune\<close>: surrogates and values past U+10FFFF encode as U+FFFD.\<close>

definition EncodeRune :: "nat \<Rightarrow> string" where
  "EncodeRune r =
     (if r \<le> 0x7F then [char_of r]
      else if r \<le> 0x7FF then [char_of (0xC0 + r div 64), char_of (0x80 + r mod 64)]
      else if 0x10FFFF < r \<or> (0xD800 \<le> r \<and> r \<le> 0xDFFF) then [CHR 0xEF, CHR 0xBF, CHR 0xBD]
      else if r \<le> 0xFFFF then
        [char_of (0xE0 + r div 4096), char_of (0x80 + (r div 64) mod 64),
         char_of (0x80 + r mod 64)]
      else
        [char_of (0xF0 + r div 262144), char_of (0x80 + (r div 4096) mod 64),
         char_of (0x80 + (r div 64) mod 64), char_of (0x80 + r mod 64)])"

text \<open>
  \<^verbatim>\<open>utf8.ValidString\<close>: every byte belongs to a well-formed encoding. An encoded
  U+FFFD (width 3) is valid; only the width-1 error marks a bad byte.
\<close>

fun ValidString :: "string \<Rightarrow> bool" where
  "ValidString [] = True"
| "ValidString (c # cs) =
     (case DecodeRune (c # cs) of
        (r, w) \<Rightarrow> \<not> (r = RuneError \<and> w = 1) \<and> ValidString (drop (w - 1) cs))"

text \<open>
  What \<^verbatim>\<open>encoding/json\<close> makes of a string on the way through a document: each byte
  that belongs to no well-formed encoding becomes U+FFFD, everything else is kept.
\<close>

fun coerce_utf8 :: "string \<Rightarrow> string" where
  "coerce_utf8 [] = []"
| "coerce_utf8 (c # cs) =
     (if byte c < 0x80 then c # coerce_utf8 cs
      else (case DecodeRune (c # cs) of
        (r, w) \<Rightarrow> EncodeRune r @ coerce_utf8 (drop (w - 1) cs)))"

subsection \<open>encoding/json: writing a \<^verbatim>\<open>map[string]string\<close>\<close>

definition hex :: "nat \<Rightarrow> char" where
  "hex n = ''0123456789abcdef'' ! n"

text \<open>\<^verbatim>\<open>htmlSafeSet\<close>: the ASCII bytes written as they are (\<^verbatim>\<open>Marshal\<close> escapes HTML).\<close>

definition htmlSafe :: "nat \<Rightarrow> bool" where
  "htmlSafe b = (0x20 \<le> b \<and> b < 0x80 \<and> b \<noteq> 0x22 \<and> b \<noteq> 0x5C \<and> b \<noteq> 0x3C \<and> b \<noteq> 0x3E \<and> b \<noteq> 0x26)"

definition escape_byte :: "char \<Rightarrow> string" where
  "escape_byte c =
     (let b = byte c in
      if htmlSafe b then [c]
      else if b = 0x5C \<or> b = 0x22 then [bs, c]
      else if b = 0x08 then [bs, CHR ''b'']
      else if b = 0x0C then [bs, CHR ''f'']
      else if b = 0x0A then [bs, CHR ''n'']
      else if b = 0x0D then [bs, CHR ''r'']
      else if b = 0x09 then [bs, CHR ''t'']
      else [bs, CHR ''u'', CHR ''0'', CHR ''0'', hex (b div 16), hex (b mod 16)])"

text \<open>
  The loop of \<^verbatim>\<open>appendString\<close> between the two quotes: ASCII through
  \<open>escape_byte\<close>; a bad byte as the six characters of the escape for U+FFFD; U+2028 and U+2029
  escaped; every other rune copied.
\<close>

fun appendString_body :: "string \<Rightarrow> string" where
  "appendString_body [] = []"
| "appendString_body (c # cs) =
     (if byte c < 0x80 then escape_byte c @ appendString_body cs
      else (case DecodeRune (c # cs) of
        (r, w) \<Rightarrow>
          if r = RuneError \<and> w = 1 then
            [bs, CHR ''u'', CHR ''f'', CHR ''f'', CHR ''f'', CHR ''d''] @ appendString_body cs
          else if r = 0x2028 \<or> r = 0x2029 then
            [bs, CHR ''u'', CHR ''2'', CHR ''0'', CHR ''2'', hex (r mod 16)]
              @ appendString_body (drop (w - 1) cs)
          else take w (c # cs) @ appendString_body (drop (w - 1) cs)))"

definition appendString :: "string \<Rightarrow> string" where
  "appendString s = dq # appendString_body s @ [dq]"

text \<open>
  A Go \<^verbatim>\<open>map[string]string\<close> is modelled as an association list with distinct keys;
  the order of the list stands for the unspecified order in which \<^verbatim>\<open>range\<close> visits
  the map. \<open>index\<close> is \<^verbatim>\<open>m[k]\<close> (the zero value for a missing key).
\<close>

type_synonym catalog = "(string \<times> string) list"

definition index :: "catalog \<Rightarrow> string \<Rightarrow> string" where
  "index m k = (case map_of m k of None \<Rightarrow> [] | Some v \<Rightarrow> v)"

definition member_line :: "string \<times> string \<Rightarrow> string" where
  "member_line kv = ''  '' @ appendString (fst kv) @ '': '' @ appendString (snd kv)"

fun join_members :: "string list \<Rightarrow> string" where
  "join_members [] = []"
| "join_members [l] = l"
| "join_members (l # l' # ls) = l @ [CHR '','', nl] @ join_members (l' # ls)"

text \<open>
  \<^verbatim>\<open>json.MarshalIndent(m, "", "  ")\<close> on a \<^verbatim>\<open>map[string]string\<close>: the encoder sorts
  the keys, writes each member as \<^verbatim>\<open>"key": "value"\<close> on a line indented by two
  spaces, and writes \<^verbatim>\<open>{}\<close> for the empty map. It has no error case for this type.
\<close>

definition MarshalIndent :: "catalog \<Rightarrow> string" where
  "MarshalIndent m =
     (let ks = sort (map fst m) in
      if ks = [] then ''{}''
      else [CHR ''{'', nl] @ join_members (map (\<lambda>k. member_line (k, index m k)) ks)
             @ [nl, CHR ''}''])"

subsection \<open>encoding/json: reading a \<^verbatim>\<open>map[string]string\<close>\<close>

datatype error = Error string

fun message :: "error \<Rightarrow> string" where
  "message (Error s) = s"

definition hexval :: "char \<Rightarrow> nat option" where
  "hexval c =
     (let b = byte c in
      if 0x30 \<le> b \<and> b \<le> 0x39 then Some (b - 0x30)
      else if 0x61 \<le> b \<and> b \<le> 0x66 then Some (b - 0x61 + 10)
      else if 0x41 \<le> b \<and> b \<le> 0x46 then Some (b - 0x41 + 10)
      else None)"

definition hex4 :: "string \<Rightarrow> nat option" where
  "hex4 s =
     (case s of
        a # b # c # d # _ \<Rightarrow>
          (case hexval a of None \<Rightarrow> None | Some x \<Rightarrow>
           case hexval b of None \<Rightarrow> None | Some y \<Rightarrow>
           case hexval c of None \<Rightarrow> None | Some z \<Rightarrow>
           case hexval d of None \<Rightarrow> None | Some t \<Rightarrow>
             Some (((x * 16 + y) * 16 + z) * 16 + t))
      | _ \<Rightarrow> None)"

text \<open>\<^verbatim>\<open>getu4\<close>: the value of a \<^verbatim>\<open>\uXXXX\<close> escape at the head of the bytes.\<close>

definition getu4 :: "string \<Rightarrow> nat option" where
  "getu4 s = (case s of e # u # r \<Rightarrow> if e = bs \<and> u = CHR ''u'' then hex4 r else None | _ \<Rightarrow> None)"

definition simple_escape :: "char \<Rightarrow> char option" where
  "simple_escape e =
     (if e = dq \<or> e = bs \<or> e = CHR ''/'' then Some e
      else if e = CHR ''b'' then Some (CHR 0x08)
      else if e = CHR ''f'' then Some (CHR 0x0C)
      else if e = CHR ''n'' then Some nl
      else if e = CHR ''r'' then Some (CHR 0x0D)
      else if e = CHR ''t'' then Some (CHR 0x09)
      else None)"

text \<open>
  One escape of a string literal, read from the byte after the backslash: the bytes
  it stands for and how many bytes it takes. A \<^verbatim>\<open>\u\<close> escape in the surrogate range
  is joined with a following low surrogate when there is one, and is U+FFFD otherwise.
\<close>

definition unescape :: "string \<Rightarrow> (string \<times> nat) option" where
  "unescape s =
     (case s of
        [] \<Rightarrow> None
      | e # r \<Rightarrow>
          if e = CHR ''u'' then
            (case hex4 r of
               None \<Rightarrow> None
             | Some rr \<Rightarrow>
                 if 0xD800 \<le> rr \<and> rr < 0xE000 then
                   (case getu4 (drop 4 r) of
                      None \<Rightarrow> Some (EncodeRune RuneError, 5)
                    | Some rr1 \<Rightarrow>
                        if rr < 0xDC00 \<and> 0xDC00 \<le> rr1 \<and> rr1 < 0xE000 then
                          Some (EncodeRune ((rr - 0xD800) * 1024 + (rr1 - 0xDC00) + 0x10000), 11)
                        else Some (EncodeRune RuneError, 5))
                 else Some (EncodeRune rr, 5))
          else (case simple_escape e of None \<Rightarrow> None | Some ch \<Rightarrow> Some ([ch], 1)))"

text \<open>
  A string literal from the byte after its opening quote (the scanner's string states
  and \<^verbatim>\<open>unquote\<close> in one pass): the decoded string and the bytes after the closing
  quote; \<open>None\<close> for a control character, a bad escape or a missing closing quote.
  Bytes that are not UTF-8 are coerced, as on the way out.
\<close>

fun unquote_rest :: "string \<Rightarrow> (string \<times> string) option" where
  "unquote_rest [] = None"
| "unquote_rest (c # cs) =
     (if c = dq then Some ([], cs)
      else if c = bs then
        (case unescape cs of
           None \<Rightarrow> None
         | Some (out, n) \<Rightarrow>
             (case unquote_rest (drop n cs) of
                None \<Rightarrow> None
              | Some (s, rest) \<Rightarrow> Some (out @ s, rest)))
      else if byte c < 0x20 then None
      else if byte c < 0x80 then
        (case unquote_rest cs of None \<Rightarrow> None | Some (s, rest) \<Rightarrow> Some (c # s, rest))
      else
        (case DecodeRune (c # cs) of
           (r, w) \<Rightarrow>
             (case unquote_rest (drop (w - 1) cs) of
                None \<Rightarrow> None
              | Some (s, rest) \<Rightarrow> Some (EncodeRune r @ s, rest))))"

lemma unquote_rest_shorter: "unquote_rest s = Some (x, rest) \<Longrightarrow> length rest < length s"
proof (induction s arbitrary: x rest rule: unquote_rest.induct)
  case 1
  then show ?case by simp
next
  case (2 c cs)
  show ?case
  proof (cases "c = dq")
    case True
    with "2.prems" show ?thesis by simp
  next
    case notq: False
    show ?thesis
    proof (cases "c = bs")
      case True
      with notq "2.prems" obtain out n s where
        u: "unescape cs = Some (out, n)" and r: "unquote_rest (drop n cs) = Some (s, rest)"
        by (auto split: option.splits)
      from "2.IH"(1)[OF notq True u refl r] show ?thesis by simp
    next
      case notb: False
      show ?thesis
      proof (cases "byte c < 0x80")
        case True
        with notq notb "2.prems" obtain s where
          lo: "\<not> byte c < 0x20" and r: "unquote_rest cs = Some (s, rest)"
          by (auto split: option.splits if_splits)
        from "2.IH"(2)[OF notq notb lo True r] show ?thesis by simp
      next
        case False
        obtain r w where d: "DecodeRune (c # cs) = (r, w)" by (cases "DecodeRune (c # cs)")
        from False have lo: "\<not> byte c < 0x20" by simp
        from notq notb False lo d "2.prems" obtain s where
          r: "unquote_rest (drop (w - 1) cs) = Some (s, rest)"
          by (auto split: option.splits)
        from "2.IH"(3)[OF notq notb lo False d[symmetric] r] show ?thesis by simp
      qed
    qed
  qed
qed

text \<open>
  The tokens a document for a \<^verbatim>\<open>map[string]string\<close> can consist of. Any other
  byte outside a string starts a number, a boolean or an array, or is no JSON at all;
  each of these makes \<^verbatim>\<open>json.Unmarshal\<close> return an error for this target type (a
  syntax error or an \<^verbatim>\<open>UnmarshalTypeError\<close>), so the lexer stops with \<open>None\<close>.
\<close>

datatype token = LBrace | RBrace | Colon | Comma | TString string | TNull

definition is_space :: "char \<Rightarrow> bool" where
  "is_space c = (c = CHR '' '' \<or> c = CHR 0x09 \<or> c = CHR 0x0D \<or> c = nl)"

function lex :: "string \<Rightarrow> token list option" where
  "lex [] = Some []"
| "lex (c # cs) =
     (if is_space c then lex cs
      else if c = CHR ''{'' then map_option ((#) LBrace) (lex cs)
      else if c = CHR ''}'' then map_option ((#) RBrace) (lex cs)
      else if c = CHR '':'' then map_option ((#) Colon) (lex cs)
      else if c = CHR '','' then map_option ((#) Comma) (lex cs)
      else if c = dq then
        (case unquote_rest cs of
           None \<Rightarrow> None
         | Some (s, rest) \<Rightarrow> map_option ((#) (TString s)) (lex rest))
      else if c = CHR ''n'' \<and> take 3 cs = ''ull'' then map_option ((#) TNull) (lex (drop 3 cs))
      else None)"
  by pat_completeness auto
termination
  by (relation "measure length") (auto dest: unquote_rest_shorter)

text \<open>
  The members of an object after the opening brace, stored into the map as the decoder
  does: a later member replaces an earlier one with the same key, and \<^verbatim>\<open>null\<close> stores
  the zero value.
\<close>

fun token_value :: "token \<Rightarrow> string option" where
  "token_value (TString s) = Some s"
| "token_value TNull = Some []"
| "token_value _ = None"

fun members :: "token list \<Rightarrow> catalog \<Rightarrow> catalog option" where
  "members (TString k # Colon # v # ts) m =
     (case token_value v of
        None \<Rightarrow> None
      | Some s \<Rightarrow>
          (case ts of
             [RBrace] \<Rightarrow> Some (AList.update k s m)
           | Comma # ts' \<Rightarrow> members ts' (AList.update k s m)
           | _ \<Rightarrow> None))"
| "members _ m = None"

text \<open>
  \<^verbatim>\<open>json.Unmarshal(data, &m)\<close> for \<^verbatim>\<open>var m map[string]string\<close>: an error, the nil
  map (\<open>None\<close>, for the document \<^verbatim>\<open>null\<close>) or the decoded map.
\<close>

fun decode_tokens :: "token list \<Rightarrow> error + catalog option" where
  "decode_tokens [TNull] = Inr None"
| "decode_tokens [LBrace, RBrace] = Inr (Some [])"
| "decode_tokens (LBrace # ts) =
     (case members ts [] of
        None \<Rightarrow> Inl (Error ''json: cannot unmarshal into Go value of type map[string]string'')
      | Some m \<Rightarrow> Inr (Some m))"
| "decode_tokens _ = Inl (Error ''json: cannot unmarshal into Go value of type map[string]string'')"

definition Unmarshal :: "string \<Rightarrow> error + catalog option" where
  "Unmarshal data =
     (case lex data of
        None \<Rightarrow> Inl (Error ''json: cannot unmarshal into Go value of type map[string]string'')
      | Some ts \<Rightarrow> decode_tokens ts)"

subsection \<open>encoding/json: decoded values of any shape\<close>

text \<open>
  What \<^verbatim>\<open>json.Unmarshal\<close> stores into an \<^verbatim>\<open>interface{}\<close>: \<^verbatim>\<open>nil\<close>, \<^verbatim>\<open>bool\<close>,
  \<^verbatim>\<open>float64\<close> (kept as its literal; no code path reads it), \<^verbatim>\<open>string\<close>,
  \<^verbatim>\<open>[]interface{}\<close> or \<^verbatim>\<open>map[string]interface{}\<close>.
\<close>

datatype jvalue =
    JNull
  | JBool bool
  | JNumber string
  | JString string
  | JArray "jvalue list"
  | JObject "(string \<times> jvalue) list"

text \<open>
  \<^verbatim>\<open>json.Unmarshal(body, &result)\<close> for \<^verbatim>\<open>var result []interface{}\<close>, over a reader
  \<open>parse\<close> of JSON texts (\<open>None\<close> for a text that is not JSON): an array fills the slice,
  \<^verbatim>\<open>null\<close> leaves it nil (length 0), any other value is an \<^verbatim>\<open>UnmarshalTypeError\<close>.
\<close>

definition Unmarshal_slice :: "(string \<Rightarrow> jvalue option) \<Rightarrow> string \<Rightarrow> error + jvalue list" where
  "Unmarshal_slice parse body =
     (case parse body of
        None \<Rightarrow> Inl (Error ''invalid character in JSON input'')
      | Some (JArray xs) \<Rightarrow> Inr xs
      | Some JNull \<Rightarrow> Inr []
      | Some _ \<Rightarrow> Inl (Error ''json: cannot unmarshal into Go value of type []interface {}''))"

subsection \<open>strings, strconv, path/filepath\<close>

text \<open>\<^verbatim>\<open>unicode.IsSpace\<close>.\<close>

definition IsSpace :: "nat \<Rightarrow> bool" where
  "IsSpace r =
     ((0x09 \<le> r \<and> r \<le> 0x0D) \<or> r = 0x20 \<or> r = 0x85 \<or> r = 0xA0 \<or> r = 0x1680
      \<or> (0x2000 \<le> r \<and> r \<le> 0x200A) \<or> r = 0x2028 \<or> r = 0x2029 \<or> r = 0x202F
      \<or> r = 0x205F \<or> r = 0x3000)"

definition RuneStart :: "char \<Rightarrow> bool" where
  "RuneStart c = (\<not> cont (byte c))"

text \<open>
  \<^verbatim>\<open>utf8.DecodeLastRune\<close>: the last rune of the bytes and its width. It looks back over
  at most three bytes for one that can start a rune and decodes from there; the rune
  counts only when it ends with the bytes.
\<close>

definition DecodeLastRune :: "string \<Rightarrow> nat \<times> nat" where
  "DecodeLastRune p =
     (case rev p of
        [] \<Rightarrow> (RuneError, 0)
      | l # front \<Rightarrow>
          if byte l < 0x80 then (byte l, 1)
          else
            (let cand = take 3 front;
                 k = length (takeWhile (\<lambda>c. \<not> RuneStart c) cand);
                 t = (if k < length cand then k + 2 else if length p \<le> 4 then length p else 5)
             in case DecodeRune (drop (length p - t) p) of
                  (r, w) \<Rightarrow> if w \<noteq> t then (RuneError, 1) else (r, w)))"

fun TrimLeftSpace :: "string \<Rightarrow> string" where
  "TrimLeftSpace [] = []"
| "TrimLeftSpace (c # cs) =
     (case DecodeRune (c # cs) of
        (r, w) \<Rightarrow> if IsSpace r then TrimLeftSpace (drop (w - 1) cs) else c # cs)"

lemma DecodeRune_width: "s \<noteq> [] \<Longrightarrow> 1 \<le> snd (DecodeRune s)"
  by (cases s) (auto simp: DecodeRune.simps Let_def split: list.splits)

lemma DecodeLastRune_width: "p \<noteq> [] \<Longrightarrow> 1 \<le> snd (DecodeLastRune p)"
  by (cases "rev p") (auto simp: DecodeLastRune_def Let_def split: prod.splits)

lemma DecodeLastRune_shrinks:
  assumes "p \<noteq> []" and "(r, w) = DecodeLastRune p"
  shows "length (take (length p - w) p) < length p"
proof -
  from assms(2) have "snd (DecodeLastRune p) = w" by (metis snd_conv)
  with DecodeLastRune_width[OF assms(1)] have "1 \<le> w" by simp
  with assms(1) show ?thesis by (cases p) auto
qed

function TrimRightSpace :: "string \<Rightarrow> string" where
  "TrimRightSpace p =
     (if p = [] then []
      else (case DecodeLastRune p of
        (r, w) \<Rightarrow> if IsSpace r then TrimRightSpace (take (length p - w) p) else p))"
  by pat_completeness auto
termination
  by (relation "measure length") (simp_all add: DecodeLastRune_shrinks del: length_take)

declare TrimRightSpace.simps [simp del]

text \<open>
  \<^verbatim>\<open>strings.TrimSpace\<close>: the string without leading and trailing white space, as
  Unicode defines it.
\<close>

definition TrimSpace :: "string \<Rightarrow> string" where
  "TrimSpace s = TrimRightSpace (TrimLeftSpace s)"

text \<open>The verb \<^verbatim>\<open>%d\<close> of \<^verbatim>\<open>fmt\<close> on a non-negative \<^verbatim>\<open>int\<close>.\<close>

fun decimal :: "nat \<Rightarrow> string" where
  "decimal n = (if n < 10 then [char_of (0x30 + n)] else decimal (n div 10) @ [char_of (0x30 + n mod 10)])"

declare decimal.simps [simp del]

text \<open>
  \<^verbatim>\<open>filepath.Join\<close>, \<^verbatim>\<open>filepath.Dir\<close> and \<^verbatim>\<open>filepath.Base\<close> on the paths the program
  builds: a clean directory path and plain names (no separator inside, not empty).
\<close>

definition Join :: "string \<Rightarrow> string \<Rightarrow> string" where
  "Join dir name = (if dir = ''/'' then dir @ name else dir @ ''/'' @ name)"

definition Base :: "string \<Rightarrow> string" where
  "Base path = rev (takeWhile (\<lambda>c. c \<noteq> CHR ''/'') (rev path))"

definition Dir :: "string \<Rightarrow> string" where
  "Dir path =
     (let d = rev (drop 1 (dropWhile (\<lambda>c. c \<noteq> CHR ''/'') (rev path))) in
      if d \<noteq> [] then d else if CHR ''/'' \<in> set path then ''/'' else ''.'')"

section \<open>The environment of one run: file system, network, working directory\<close>

text \<open>
  The files the program can touch are a store from paths to nodes: nothing, a file the
  process can read, or a node \<^verbatim>\<open>os.ReadFile\<close> fails on; the latter holds bytes as well,
  for it may be a file the process can write and not read (mode \<^verbatim>\<open>0200\<close>). What the
  operating system and the network answer during one run is the record \<open>env\<close>:
  \<^verbatim>\<open>os.Getwd\<close>, \<^verbatim>\<open>os.MkdirAll\<close> and \<^verbatim>\<open>os.WriteFile\<close> per path (\<open>None\<close> is Go's
  \<^verbatim>\<open>nil\<close> error), and \<^verbatim>\<open>http.Get\<close> per request; the request URL of
  \<open>googleTranslate\<close> differs only in the target language and the text, which stand for
  it. When \<^verbatim>\<open>os.WriteFile\<close> returns an error, \<open>WriteFile_partial\<close> tells how far it
  got: \<open>None\<close> when the file could not be opened, \<open>Some n\<close> when it was opened and \<open>n\<close>
  bytes reached it before the error. \<open>Created_readable\<close> tells whether a file that
  \<^verbatim>\<open>os.WriteFile\<close> creates with the mode \<^verbatim>\<open>0644\<close> of the program can be read by the
  process afterwards (the mode is cut by the file mode creation mask). The field
  \<open>json_parse\<close> is the reader of \<^verbatim>\<open>encoding/json\<close> for JSON texts of any shape, which
  the program applies only to the body of the provider's response; every property
  below holds for whatever value it decodes a body to.
\<close>

datatype fnode = Absent | Unreadable string | File string

type_synonym fs = "string \<Rightarrow> fnode"

record response =
  StatusCode :: nat
  Body :: "error + string"

record env =
  Getwd :: "error + string"
  MkdirAll :: "string \<Rightarrow> error option"
  WriteFile_error :: "string \<Rightarrow> error option"
  WriteFile_partial :: "string \<Rightarrow> nat option"
  Created_readable :: bool
  Get :: "string \<Rightarrow> string \<Rightarrow> error + response"
  json_parse :: "string \<Rightarrow> jvalue option"

definition ReadFile :: "fs \<Rightarrow> string \<Rightarrow> error + string" where
  "ReadFile fs path =
     (case fs path of
        File b \<Rightarrow> Inr b
      | Absent \<Rightarrow> Inl (Error (''open '' @ path @ '': no such file or directory''))
      | Unreadable b \<Rightarrow> Inl (Error (''open '' @ path @ '': permission denied'')))"

text \<open>
  \<^verbatim>\<open>os.WriteFile\<close> opens the file for writing, creating it if there is none and
  truncating it otherwise, and writes the bytes. A file that exists keeps its
  permissions: one the process could read stays readable, one it could not read stays
  so, with the new bytes. \<open>write_node\<close> is the node after the bytes have been written.
  When the file cannot be opened the store stays as it was; when the error comes after
  that, the file holds the bytes that were written before it. Different paths are
  different files, and nothing but the program changes the store.
\<close>

definition write_node :: "env \<Rightarrow> fnode \<Rightarrow> string \<Rightarrow> fnode" where
  "write_node env node b =
     (case node of
        Absent \<Rightarrow> if Created_readable env then File b else Unreadable b
      | Unreadable old \<Rightarrow> Unreadable b
      | File old \<Rightarrow> File b)"

definition WriteFile :: "env \<Rightarrow> fs \<Rightarrow> string \<Rightarrow> string \<Rightarrow> fs \<times> error option" where
  "WriteFile env fs path b =
     (case WriteFile_error env path of
        Some err \<Rightarrow>
          (case WriteFile_partial env path of
             None \<Rightarrow> (fs, Some err)
           | Some n \<Rightarrow> (fs(path := write_node env (fs path) (take n b)), Some err))
      | None \<Rightarrow> (fs(path := write_node env (fs path) b), None))"

section \<open>main.go\<close>

subsection \<open>Console symbols of the messages (UTF-8)\<close>

definition folder_sign :: string where
  "folder_sign = [CHR 0xF0, CHR 0x9F, CHR 0x93, CHR 0x82]"

definition cross_sign :: string where
  "cross_sign = [CHR 0xE2, CHR 0x9D, CHR 0x8C]"

definition warning_sign :: string where
  "warning_sign = [CHR 0xE2, CHR 0x9A, CHR 0xA0, CHR 0xEF, CHR 0xB8, CHR 0x8F]"

definition sparkles_sign :: string where
  "sparkles_sign = [CHR 0xE2, CHR 0x9C, CHR 0xA8]"

definition mailbox_sign :: string where
  "mailbox_sign = [CHR 0xF0, CHR 0x9F, CHR 0x93, CHR 0xAD]"

definition clipboard_sign :: string where
  "clipboard_sign = [CHR 0xF0, CHR 0x9F, CHR 0x93, CHR 0x8B]"

definition check_sign :: string where
  "check_sign = [CHR 0xE2, CHR 0x9C, CHR 0x85]"

definition skip_sign :: string where
  "skip_sign = [CHR 0xE2, CHR 0x8F, CHR 0xAD, CHR 0xEF, CHR 0xB8, CHR 0x8F]"

definition sq :: char where
  "sq = CHR 0x27"

subsection \<open>Language configuration\<close>

definition languages :: "(string \<times> string) list" where
  "languages = [(''en.json'', ''en''), (''km.json'', ''km''), (''zh.json'', ''zh-CN'')]"

text \<open>
  \<^verbatim>\<open>for file, langCode := range languages\<close> visits the entries of the map in an order
  Go does not fix: any list \<open>order\<close> with \<open>range_order languages order\<close>.
\<close>

definition range_order :: "('a \<times> 'b) list \<Rightarrow> ('a \<times> 'b) list \<Rightarrow> bool" where
  "range_order m order = (distinct (map fst order) \<and> set order = set m)"

fun for_range :: "('a \<Rightarrow> fs \<Rightarrow> fs \<times> string) \<Rightarrow> 'a list \<Rightarrow> fs \<Rightarrow> fs \<times> string" where
  "for_range body [] fs = (fs, [])"
| "for_range body (x # xs) fs =
     (case body x fs of
        (fs1, out1) \<Rightarrow> (case for_range body xs fs1 of (fs2, out2) \<Rightarrow> (fs2, out1 @ out2)))"

subsection \<open>initBasePath\<close>

text \<open>
  Every function that prints returns the text it wrote to standard output. The global
  \<^verbatim>\<open>basePath\<close> is the value \<open>initBasePath\<close> returns on success.
\<close>

definition initBasePath :: "env \<Rightarrow> (error + string) \<times> string" where
  "initBasePath env =
     (case Getwd env of
        Inl err \<Rightarrow> (Inl (Error (''failed to get current directory: '' @ message err)), [])
      | Inr cwd \<Rightarrow>
          (let basePath = Join (Join (Join (Join cwd ''pkg'') ''translates'') ''localize'') ''i18n'' in
           case MkdirAll env basePath of
             Some err \<Rightarrow> (Inl (Error (''failed to create directory: '' @ message err)), [])
           | None \<Rightarrow> (Inr basePath, folder_sign @ '' Using base path: '' @ basePath @ [nl])))"

subsection \<open>loadJSON and saveJSON\<close>

definition loadJSON :: "fs \<Rightarrow> string \<Rightarrow> catalog" where
  "loadJSON fs path =
     (case ReadFile fs path of
        Inl err \<Rightarrow> []
      | Inr fileData \<Rightarrow>
          (case Unmarshal fileData of
             Inl err \<Rightarrow> []
           | Inr data \<Rightarrow> (case data of None \<Rightarrow> [] | Some m \<Rightarrow> m)))"

text \<open>
  \<open>saveJSON\<close> collects the keys in the order \<^verbatim>\<open>range\<close> gives them, sorts them, copies
  the entries into a fresh map and hands that map to \<^verbatim>\<open>json.MarshalIndent\<close> (which
  cannot fail on a \<^verbatim>\<open>map[string]string\<close>, so the first \<^verbatim>\<open>return err\<close> is dead).
\<close>

definition saveJSON_bytes :: "catalog \<Rightarrow> string" where
  "saveJSON_bytes data =
     (let keys = sort (map fst data);
          sorted = foldl (\<lambda>m k. AList.update k (index data k) m) [] keys
      in MarshalIndent sorted)"

definition saveJSON :: "env \<Rightarrow> fs \<Rightarrow> string \<Rightarrow> catalog \<Rightarrow> fs \<times> error option" where
  "saveJSON env fs path data =
     (let jsonBytes = saveJSON_bytes data in
      case MkdirAll env (Dir path) of
        Some err \<Rightarrow> (fs, Some err)
      | None \<Rightarrow> WriteFile env fs path jsonBytes)"

subsection \<open>googleTranslate\<close>

text \<open>The loop over \<^verbatim>\<open>translations\<close>, writing into the \<^verbatim>\<open>strings.Builder\<close>.\<close>

fun write_fragments :: "jvalue list \<Rightarrow> string \<Rightarrow> string" where
  "write_fragments [] translatedText = translatedText"
| "write_fragments (item # items) translatedText =
     write_fragments items
       (case item of
          JArray arr \<Rightarrow>
            (case arr of
               [] \<Rightarrow> translatedText
             | first # _ \<Rightarrow>
                 (case first of JString str \<Rightarrow> translatedText @ str | _ \<Rightarrow> translatedText))
        | _ \<Rightarrow> translatedText)"

definition googleTranslate :: "env \<Rightarrow> string \<Rightarrow> string \<Rightarrow> error + string" where
  "googleTranslate env text targetLang =
     (case Get env targetLang text of
        Inl err \<Rightarrow> Inl (Error (''request failed: '' @ message err))
      | Inr resp \<Rightarrow>
          if StatusCode resp \<noteq> 200 then
            Inl (Error (''API returned status '' @ decimal (StatusCode resp)))
          else
            (case Body resp of
               Inl err \<Rightarrow> Inl (Error (''failed to read response: '' @ message err))
             | Inr body \<Rightarrow>
                 (case Unmarshal_slice (json_parse env) body of
                    Inl err \<Rightarrow> Inl (Error (''failed to parse response: '' @ message err))
                  | Inr result \<Rightarrow>
                      (case result of
                         [] \<Rightarrow> Inl (Error ''empty response'')
                       | first # _ \<Rightarrow>
                           (case first of
                              JArray translations \<Rightarrow>
                                if length translations = 0 then Inl (Error ''invalid response format'')
                                else Inr (TrimSpace (write_fragments translations []))
                            | _ \<Rightarrow> Inl (Error ''invalid response format''))))))"

subsection \<open>processAddOrUpdate\<close>

definition processAddOrUpdate ::
  "env \<Rightarrow> fs \<Rightarrow> string \<Rightarrow> string \<Rightarrow> string \<Rightarrow> bool \<Rightarrow> string \<Rightarrow> fs \<times> string" where
  "processAddOrUpdate env fs path key val isEnglish langCode =
     (let data = loadJSON fs path in
      if isEnglish then
        (fst (saveJSON env fs path (AList.update key val data)),
         check_sign @ '' '' @ Base path @ '': '' @ val @ [nl])
      else
        (case (case googleTranslate env val langCode of
                 Inl err \<Rightarrow>
                   (val, cross_sign @ '' '' @ Base path @ '': Translation failed (''
                           @ message err @ ''), using English'' @ [nl])
               | Inr translated \<Rightarrow> (translated, [])) of
           (translated, failure_line) \<Rightarrow>
             (fst (saveJSON env fs path (AList.update key translated data)),
              failure_line @ check_sign @ '' '' @ Base path @ '': '' @ translated @ [nl])))"

subsection \<open>The command handlers\<close>

definition exists :: "catalog \<Rightarrow> string \<Rightarrow> bool" where
  "exists data key = (map_of data key \<noteq> None)"

definition runAdd :: "env \<Rightarrow> (string \<times> string) list \<Rightarrow> fs \<Rightarrow> string \<Rightarrow> string \<Rightarrow> fs \<times> string" where
  "runAdd env order fs key val =
     (case initBasePath env of
        (Inl err, out) \<Rightarrow> (fs, out @ cross_sign @ '' Error: '' @ message err @ [nl])
      | (Inr basePath, out) \<Rightarrow>
          (let enPath = Join basePath ''en.json'';
               enData = loadJSON fs enPath
           in if exists enData key then
                (fs, out @ warning_sign @ ''  Key '' @ [sq] @ key @ [sq]
                       @ '' already exists. Use '' @ [sq] @ ''update'' @ [sq]
                       @ '' command to modify it.'' @ [nl])
              else
                (case for_range
                        (\<lambda>(file, langCode) fs.
                           processAddOrUpdate env fs (Join basePath file) key val
                             (file = ''en.json'') langCode)
                        order fs of
                   (fs', lines) \<Rightarrow>
                     (fs', out @ [nl] @ lines @ [nl] @ sparkles_sign
                             @ '' i18n key added to all languages!'' @ [nl]))))"

definition runList :: "env \<Rightarrow> fs \<Rightarrow> string" where
  "runList env fs =
     (case initBasePath env of
        (Inl err, out) \<Rightarrow> out @ cross_sign @ '' Error: '' @ message err @ [nl]
      | (Inr basePath, out) \<Rightarrow>
          (let enPath = Join basePath ''en.json'';
               data = loadJSON fs enPath
           in if length data = 0 then out @ mailbox_sign @ '' No i18n keys found'' @ [nl]
              else
                (let keys = sort (map fst data) in
                 out @ clipboard_sign @ '' Found '' @ decimal (length data) @ '' i18n keys:''
                   @ [nl, nl]
                   @ concat (map (\<lambda>k. ''  '' @ k @ '': '' @ index data k @ [nl]) keys))))"

definition runUpdate :: "env \<Rightarrow> (string \<times> string) list \<Rightarrow> fs \<Rightarrow> string \<Rightarrow> string \<Rightarrow> fs \<times> string" where
  "runUpdate env order fs key val =
     (case initBasePath env of
        (Inl err, out) \<Rightarrow> (fs, out @ cross_sign @ '' Error: '' @ message err @ [nl])
      | (Inr basePath, out) \<Rightarrow>
          (let enPath = Join basePath ''en.json'';
               enData = loadJSON fs enPath
           in if \<not> exists enData key then
                (fs, out @ warning_sign @ ''  Key '' @ [sq] @ key @ [sq]
                       @ '' does not exist. Use '' @ [sq] @ ''add'' @ [sq]
                       @ '' command to create it.'' @ [nl])
              else
                (case for_range
                        (\<lambda>(file, langCode) fs.
                           processAddOrUpdate env fs (Join basePath file) key val
                             (file = ''en.json'') langCode)
                        order fs of
                   (fs', lines) \<Rightarrow>
                     (fs', out @ [nl] @ lines @ [nl] @ sparkles_sign
                             @ '' i18n key updated in all languages!'' @ [nl]))))"

definition remove_in :: "env \<Rightarrow> string \<Rightarrow> string \<Rightarrow> string \<times> string \<Rightarrow> fs \<Rightarrow> fs \<times> string" where
  "remove_in env basePath key entry fs =
     (let file = fst entry;
          path = Join basePath file;
          data = loadJSON fs path
      in if exists data key then
           (fst (saveJSON env fs path (AList.delete key data)),
            check_sign @ '' '' @ file @ '': Key removed'' @ [nl])
         else (fs, skip_sign @ ''  '' @ file @ '': Key not found'' @ [nl]))"

definition runRemove :: "env \<Rightarrow> (string \<times> string) list \<Rightarrow> fs \<Rightarrow> string \<Rightarrow> fs \<times> string" where
  "runRemove env order fs key =
     (case initBasePath env of
        (Inl err, out) \<Rightarrow> (fs, out @ cross_sign @ '' Error: '' @ message err @ [nl])
      | (Inr basePath, out) \<Rightarrow>
          (let enPath = Join basePath ''en.json'';
               enData = loadJSON fs enPath
           in if \<not> exists enData key then
                (fs, out @ warning_sign @ ''  Key '' @ [sq] @ key @ [sq]
                       @ '' does not exist'' @ [nl])
              else
                (case for_range (remove_in env basePath key) order fs of
                   (fs', lines) \<Rightarrow>
                     (fs', out @ [nl] @ lines @ [nl] @ sparkles_sign
                             @ '' i18n key removed from all languages!'' @ [nl]))))"

subsection \<open>main\<close>

text \<open>
  \<^verbatim>\<open>rootCmd.Execute()\<close> belongs to the command-line library. Seen from \<^verbatim>\<open>main\<close> it
  does one of three things with the arguments of the process: it checks the number of
  positional arguments and calls one \<^verbatim>\<open>Run\<close> handler, then returns \<^verbatim>\<open>nil\<close> (the
  handlers return nothing); it prints a usage text and returns \<^verbatim>\<open>nil\<close>; or it returns
  an error (unknown command, wrong number of arguments) without calling a handler.
  The process ends with status 1 through \<^verbatim>\<open>os.Exit(1)\<close> and with status 0 when
  \<open>main\<close> returns.
\<close>

datatype command = CmdAdd string string | CmdList | CmdUpdate string string | CmdRemove string

datatype execution = Runs command | Usage string | Fails error

fun run_command :: "env \<Rightarrow> (string \<times> string) list \<Rightarrow> fs \<Rightarrow> command \<Rightarrow> fs \<times> string" where
  "run_command env order fs (CmdAdd key val) = runAdd env order fs key val"
| "run_command env order fs CmdList = (fs, runList env fs)"
| "run_command env order fs (CmdUpdate key val) = runUpdate env order fs key val"
| "run_command env order fs (CmdRemove key) = runRemove env order fs key"

fun main :: "env \<Rightarrow> (string \<times> string) list \<Rightarrow> fs \<Rightarrow> execution \<Rightarrow> fs \<times> string \<times> nat" where
  "main env order fs (Runs c) = (case run_command env order fs c of (fs', out) \<Rightarrow> (fs', out, 0))"
| "main env order fs (Usage text) = (fs, text, 0)"
| "main env order fs (Fails err) = (fs, message err @ [nl], 1)"

section \<open>Notions used to state the properties\<close>

text \<open>
  A fragment of a translation response is an array whose first element is a string;
  \<open>fragments\<close> lists these strings in the order of the response.
\<close>

fun is_fragment :: "jvalue \<Rightarrow> bool" where
  "is_fragment (JArray (JString s # _)) = True"
| "is_fragment _ = False"

definition fragments :: "jvalue list \<Rightarrow> string list" where
  "fragments ts = [s. JArray (JString s # _) \<leftarrow> ts]"

definition keys_of :: "catalog \<Rightarrow> string set" where
  "keys_of m = set (map fst m)"

text \<open>
  The bytes of a well-formed rune of two, three and four bytes (the lead byte and the
  ranges \<^verbatim>\<open>utf8.DecodeRune\<close> accepts after it).
\<close>

definition wf2 :: "nat \<Rightarrow> nat \<Rightarrow> bool" where
  "wf2 p0 b1 = (0xC2 \<le> p0 \<and> p0 < 0xE0 \<and> cont b1)"

definition wf3 :: "nat \<Rightarrow> nat \<Rightarrow> nat \<Rightarrow> bool" where
  "wf3 p0 b1 b2 = (0xE0 \<le> p0 \<and> p0 < 0xF0 \<and> accept_lo p0 \<le> b1 \<and> b1 \<le> accept_hi p0 \<and> cont b2)"

definition wf4 :: "nat \<Rightarrow> nat \<Rightarrow> nat \<Rightarrow> nat \<Rightarrow> bool" where
  "wf4 p0 b1 b2 b3 = (0xF0 \<le> p0 \<and> p0 < 0xF5 \<and> accept_lo p0 \<le> b1 \<and> b1 \<le> accept_hi p0 \<and> cont b2 \<and> cont b3)"

text \<open>
  What a catalog looks like after a trip through a document: its entries in ascending
  key order (\<open>sorted_entries\<close>), each string coerced to UTF-8 (\<open>entry_coerce\<close>), stored
  one after the other (\<open>store_all\<close>). \<open>member_tokens\<close> are the tokens of the members of
  an object up to its closing brace. \<open>canonical_document\<close> is the layout the
  specification asks for, written out: an opening brace, one member per line, each
  indented by two spaces and separated from the next by a comma, in the order of the
  entries given, and a closing brace; \<^verbatim>\<open>{}\<close> when there is no entry.
\<close>

definition entry_coerce :: "string \<times> string \<Rightarrow> string \<times> string" where
  "entry_coerce kv = (coerce_utf8 (fst kv), coerce_utf8 (snd kv))"

fun member_tokens :: "(string \<times> string) list \<Rightarrow> token list" where
  "member_tokens [] = [RBrace]"
| "member_tokens [kv] = [TString (fst kv), Colon, TString (snd kv), RBrace]"
| "member_tokens (kv # kv' # kvs) = TString (fst kv) # Colon # TString (snd kv) # Comma # member_tokens (kv' # kvs)"

definition store_all :: "catalog \<Rightarrow> (string \<times> string) list \<Rightarrow> catalog" where
  "store_all m kvs = foldl (\<lambda>m kv. AList.update (fst kv) (snd kv) m) m kvs"

definition sorted_entries :: "catalog \<Rightarrow> (string \<times> string) list" where
  "sorted_entries m = map (\<lambda>k. (k, index m k)) (sort (map fst m))"

fun canonical_members :: "(string \<times> string) list \<Rightarrow> string" where
  "canonical_members [] = []"
| "canonical_members [kv] = ''  '' @ appendString (fst kv) @ '': '' @ appendString (snd kv)"
| "canonical_members (kv # kv' # kvs) =
     ''  '' @ appendString (fst kv) @ '': '' @ appendString (snd kv) @ '','' @ [nl]
       @ canonical_members (kv' # kvs)"

definition canonical_document :: "(string \<times> string) list \<Rightarrow> string" where
  "canonical_document entries =
     (if entries = [] then ''{}'' else ''{'' @ [nl] @ canonical_members entries @ [nl] @ ''}'')"

text \<open>
  \<open>catalog_of\<close> is what \<open>loadJSON\<close> makes of the node at a path, \<open>contents\<close> the bytes a
  node holds, readable or not. \<open>unreadable\<close>: the node is there and \<^verbatim>\<open>os.ReadFile\<close>
  fails on it. \<open>reads_back\<close>: the node can be read once it has been written (it is a
  readable file, or there is none and the process creates readable files). \<open>save_ok\<close>:
  \<open>saveJSON\<close> on the path returns \<^verbatim>\<open>nil\<close>. \<open>saved_node\<close>: the node at the path after
  \<open>saveJSON\<close> has been given the bytes, whatever it returns. \<open>parity\<close>: every managed
  catalog has the key set of the reference catalog. \<open>succeeds\<close>: the operation passes
  its precondition and every \<open>saveJSON\<close> it calls returns \<^verbatim>\<open>nil\<close>. \<open>run_sequence\<close> lists
  the stores after each operation of a sequence; each step has its own environment and
  its own order of visiting the languages. \<open>readable_run\<close>: at the start no managed
  document is one that cannot be read, and in every step the process creates readable
  files. \<open>stored_value\<close> is the value \<open>processAddOrUpdate\<close> stores.
\<close>

definition catalog_of :: "fnode \<Rightarrow> catalog" where
  "catalog_of n =
     (case n of
        File b \<Rightarrow> (case Unmarshal b of Inl err \<Rightarrow> [] | Inr data \<Rightarrow> (case data of None \<Rightarrow> [] | Some m \<Rightarrow> m))
      | _ \<Rightarrow> [])"

fun contents :: "fnode \<Rightarrow> string option" where
  "contents Absent = None"
| "contents (Unreadable b) = Some b"
| "contents (File b) = Some b"

fun unreadable :: "fnode \<Rightarrow> bool" where
  "unreadable (Unreadable b) = True"
| "unreadable _ = False"

definition reads_back :: "env \<Rightarrow> fnode \<Rightarrow> bool" where
  "reads_back env node =
     (case node of Absent \<Rightarrow> Created_readable env | Unreadable b \<Rightarrow> False | File b \<Rightarrow> True)"

definition save_ok :: "env \<Rightarrow> string \<Rightarrow> bool" where
  "save_ok env path = (MkdirAll env (Dir path) = None \<and> WriteFile_error env path = None)"

definition saved_node :: "env \<Rightarrow> string \<Rightarrow> fnode \<Rightarrow> string \<Rightarrow> fnode" where
  "saved_node env path node b =
     (case MkdirAll env (Dir path) of
        Some err \<Rightarrow> node
      | None \<Rightarrow>
          (case WriteFile_error env path of
             None \<Rightarrow> write_node env node b
           | Some err \<Rightarrow>
               (case WriteFile_partial env path of
                  None \<Rightarrow> node
                | Some n \<Rightarrow> write_node env node (take n b))))"

definition parity :: "string \<Rightarrow> fs \<Rightarrow> bool" where
  "parity basePath fs =
     list_all (\<lambda>file. keys_of (loadJSON fs (Join basePath file))
                        = keys_of (loadJSON fs (Join basePath ''en.json'')))
       (map fst languages)"

fun succeeds :: "env \<Rightarrow> string \<Rightarrow> fs \<Rightarrow> command \<Rightarrow> bool" where
  "succeeds env basePath fs (CmdAdd key val) =
     (\<not> exists (loadJSON fs (Join basePath ''en.json'')) key
      \<and> list_all (\<lambda>file. save_ok env (Join basePath file)) (map fst languages))"
| "succeeds env basePath fs (CmdUpdate key val) =
     (exists (loadJSON fs (Join basePath ''en.json'')) key
      \<and> list_all (\<lambda>file. save_ok env (Join basePath file)) (map fst languages))"
| "succeeds env basePath fs (CmdRemove key) =
     (exists (loadJSON fs (Join basePath ''en.json'')) key
      \<and> list_all (\<lambda>file. exists (loadJSON fs (Join basePath file)) key \<longrightarrow> save_ok env (Join basePath file))
           (map fst languages))"
| "succeeds env basePath fs CmdList = True"

fun run_sequence :: "fs \<Rightarrow> (env \<times> (string \<times> string) list \<times> command) list \<Rightarrow> fs list" where
  "run_sequence fs [] = []"
| "run_sequence fs ((env, order, c) # steps) =
     (let fs' = fst (run_command env order fs c) in fs' # run_sequence fs' steps)"

fun all_succeed :: "string \<Rightarrow> fs \<Rightarrow> (env \<times> (string \<times> string) list \<times> command) list \<Rightarrow> bool" where
  "all_succeed basePath fs [] = True"
| "all_succeed basePath fs ((env, order, c) # steps) =
     (fst (initBasePath env) = Inr basePath \<and> range_order languages order
      \<and> succeeds env basePath fs c
      \<and> all_succeed basePath (fst (run_command env order fs c)) steps)"

definition readable_run :: "string \<Rightarrow> fs \<Rightarrow> (env \<times> (string \<times> string) list \<times> command) list \<Rightarrow> bool" where
  "readable_run basePath fs steps =
     (list_all (\<lambda>file. \<not> unreadable (fs (Join basePath file))) (map fst languages)
      \<and> list_all (\<lambda>step. Created_readable (fst step)) steps)"

definition stored_value :: "env \<Rightarrow> string \<Rightarrow> bool \<Rightarrow> string \<Rightarrow> string" where
  "stored_value env val isEnglish langCode =
     (if isEnglish then val
      else (case googleTranslate env val langCode of Inl err \<Rightarrow> val | Inr translated \<Rightarrow> translated))"

text \<open>
  Concrete runs: a working directory \<^verbatim>\<open>/w\<close>, with and without a usable base directory;
  an empty store, and one in which \<^verbatim>\<open>km.json\<close> is an empty file that the process can
  write and not read.
\<close>

definition base_w :: string where
  "base_w = ''/w/pkg/translates/localize/i18n''"

definition env_w :: env where
  "env_w = \<lparr> Getwd = Inr ''/w'', MkdirAll = (\<lambda>_. None), WriteFile_error = (\<lambda>_. None),
             WriteFile_partial = (\<lambda>_. None), Created_readable = True,
             Get = (\<lambda>tl q. Inl (Error ''no route to host'')), json_parse = (\<lambda>_. None) \<rparr>"

definition env_nodir :: env where
  "env_nodir = env_w \<lparr> MkdirAll := (\<lambda>_. Some (Error ''mkdir /w/pkg: permission denied'')) \<rparr>"

definition doc_kv :: string where
  "doc_kv = [CHR ''{'', dq, CHR ''k'', dq, CHR '':'', dq, CHR ''v'', dq, CHR ''}'']"

definition doc_number :: string where
  "doc_number = [CHR ''{'', dq, CHR ''k'', dq, CHR '':'', CHR ''1'', CHR ''}'']"

definition fs_empty :: fs where
  "fs_empty = (\<lambda>_. Absent)"

definition fs_write_only :: fs where
  "fs_write_only = fs_empty (Join base_w ''km.json'' := Unreadable [])"

definition fs_kv :: fs where
  "fs_kv = fs_empty (Join base_w ''en.json'' := File doc_kv)"

text \<open>
  A provider that answers every request with status 200 and the body \<open>body\<close>, a JSON
  text whose decoded value is \<open>v\<close>.
\<close>

definition env_reply :: "string \<Rightarrow> jvalue \<Rightarrow> env" where
  "env_reply body v = env_w \<lparr> Get := (\<lambda>tl q. Inr \<lparr> StatusCode = 200, Body = Inr body \<rparr>),
                             json_parse := (\<lambda>b. if b = body then Some v else None) \<rparr>"

definition quoted :: "string \<Rightarrow> string" where
  "quoted s = dq # s @ [dq]"

definition reply_value_text :: string where
  "reply_value_text =
     ''[[['' @ quoted '' Sua'' @ '','' @ quoted ''hello'' @ '',null,10],[null,'' @ quoted ''skipped''
       @ ''],[],null,['' @ quoted '' sdei '' @ '','' @ quoted ''hello'' @ '']],null,'' @ quoted ''en'' @ '']''"

definition reply_no_text_text :: string where
  "reply_no_text_text = ''[[[null,'' @ quoted ''hello'' @ ''],1]]''"

definition reply_sua_text :: string where
  "reply_sua_text = ''[[['' @ quoted ''sua'' @ '','' @ quoted ''hello'' @ '']],null,'' @ quoted ''en'' @ '']''"

definition reply_value :: jvalue where
  "reply_value =
     JArray [JArray [JArray [JString '' Sua'', JString ''hello'', JNull, JNumber ''10''],
                     JArray [JNull, JString ''skipped''], JArray [], JNull,
                     JArray [JString '' sdei '', JString ''hello'']],
             JNull, JString ''en'']"

definition reply_no_text :: jvalue where
  "reply_no_text = JArray [JArray [JArray [JNull, JString ''hello''], JNumber ''1'']]"

definition reply_sua :: jvalue where
  "reply_sua = JArray [JArray [JArray [JString ''sua'', JString ''hello'']], JNull, JString ''en'']"

definition env_km_readonly :: env where
  "env_km_readonly =
     env_reply reply_sua_text reply_sua \<lparr> WriteFile_error :=
               (\<lambda>p. if p = Join base_w ''km.json'' then Some (Error ''permission denied'') else None) \<rparr>"

definition doc_k_hello :: string where
  "doc_k_hello = [CHR ''{'', nl] @ ''  '' @ [dq] @ ''k'' @ [dq] @ '': '' @ [dq] @ ''hello'' @ [dq, nl, CHR ''}'']"

definition doc_k_empty :: string where
  "doc_k_empty = [CHR ''{'', nl] @ ''  '' @ [dq] @ ''k'' @ [dq] @ '': '' @ [dq, dq, nl, CHR ''}'']"

definition doc_k_sua :: string where
  "doc_k_sua = [CHR ''{'', nl] @ ''  '' @ [dq] @ ''k'' @ [dq] @ '': '' @ [dq] @ ''sua'' @ [dq, nl, CHR ''}'']"

definition steps_w :: "(env \<times> (string \<times> string) list \<times> command) list" where
  "steps_w = [(env_w, languages, CmdAdd ''k'' ''hello''),
              (env_w, rev languages, CmdUpdate ''k'' ''hi''),
              (env_w, languages, CmdRemove ''k'')]"

definition doc_a1_b2 :: string where
  "doc_a1_b2 = [CHR ''{'', nl] @ ''  '' @ [dq] @ ''a'' @ [dq] @ '': '' @ [dq] @ ''1'' @ [dq, CHR '','', nl]
                 @ ''  '' @ [dq] @ ''b'' @ [dq] @ '': '' @ [dq] @ ''2'' @ [dq, nl, CHR ''}'']"

definition m_accent :: catalog where
  "m_accent = [(''k'', [CHR ''c'', CHR ''a'', CHR ''f'', CHR 0xC3, CHR 0xA9])]"

definition m_bad_byte :: catalog where
  "m_bad_byte = [(''k'', [CHR 0xFF])]"

definition m_mixed :: catalog where
  "m_mixed = [(''b'', [CHR 0x80]), (''a'', ''x'')]"

text \<open>
  The scenario of the specification: in an empty base directory, with a provider that
  translates every text to \<^verbatim>\<open>sua\<close>, add \<^verbatim>\<open>greeting\<close> with the value \<^verbatim>\<open>Hello\<close>, update it
  to \<^verbatim>\<open>Hi\<close>, remove it. \<open>managed_nodes\<close> are the three documents, in the order
  \<^verbatim>\<open>en.json\<close>, \<^verbatim>\<open>km.json\<close>, \<^verbatim>\<open>zh.json\<close>.
\<close>

definition env_sua :: env where
  "env_sua = env_reply reply_sua_text reply_sua"

definition doc_greeting :: "string \<Rightarrow> string" where
  "doc_greeting v = [CHR ''{'', nl] @ ''  '' @ quoted ''greeting'' @ '': '' @ quoted v @ [nl, CHR ''}'']"

definition managed_nodes :: "fs \<Rightarrow> fnode list" where
  "managed_nodes fs = map (\<lambda>file. fs (Join base_w file)) (map fst languages)"

definition scenario_added :: fs where
  "scenario_added = fst (runAdd env_sua languages fs_empty ''greeting'' ''Hello'')"

definition scenario_updated :: fs where
  "scenario_updated = fst (runUpdate env_sua (rev languages) scenario_added ''greeting'' ''Hi'')"

definition scenario_removed :: fs where
  "scenario_removed = fst (runRemove env_sua languages scenario_updated ''greeting'')"

section \<open>Evaluation of concrete runs\<close>

lemmas text_simps = dq_def bs_def nl_def sq_def folder_sign_def cross_sign_def warning_sign_def
  sparkles_sign_def mailbox_sign_def clipboard_sign_def check_sign_def skip_sign_def

lemmas path_simps = Join_def Base_def Dir_def base_w_def

lemmas decode_simps = Unmarshal_def is_space_def hexval_def hex4_def getu4_def simple_escape_def
  unescape_def

lemma initBasePath_env_w: "initBasePath env_w = (Inr base_w, folder_sign @ '' Using base path: '' @ base_w @ [nl])"
  by (simp add: initBasePath_def env_w_def path_simps)

lemma initBasePath_env_nodir:
  "initBasePath env_nodir = (Inl (Error ''failed to create directory: mkdir /w/pkg: permission denied''), [])"
  by (simp add: initBasePath_def env_nodir_def env_w_def path_simps)

lemma Unmarshal_doc_kv: "Unmarshal doc_kv = Inr (Some [(''k'', ''v'')])"
  by (simp add: doc_kv_def decode_simps text_simps)

lemma Unmarshal_doc_number: "Unmarshal doc_number = Inl (Error ''json: cannot unmarshal into Go value of type map[string]string'')"
  by (simp add: doc_number_def decode_simps text_simps)

lemma loadJSON_fs_kv: "loadJSON fs_kv (Join base_w ''en.json'') = [(''k'', ''v'')]"
  by (simp add: loadJSON_def ReadFile_def fs_kv_def Unmarshal_doc_kv)

lemmas encode_simps = saveJSON_bytes_def MarshalIndent_def member_line_def appendString_def
  index_def escape_byte_def htmlSafe_def hex_def

lemmas utf8_simps = DecodeRune.simps lead_size_def accept_lo_def accept_hi_def cont_def
  EncodeRune_def RuneError_def

lemma saveJSON_bytes_k_hello: "saveJSON_bytes [(''k'', ''hello'')] = doc_k_hello"
  by (simp add: encode_simps doc_k_hello_def text_simps)

lemma Join_inject: "Join d a = Join d b \<longleftrightarrow> a = b"
  by (simp add: Join_def)

lemma Base_Join: "CHR ''/'' \<notin> set a \<Longrightarrow> Base (Join d a) = a"
  by (simp add: Join_def Base_def takeWhile_append)

lemma googleTranslate_env_w: "googleTranslate env_w text lang = Inl (Error ''request failed: no route to host'')"
  by (simp add: googleTranslate_def env_w_def)

lemma TrimSpace_Sua: "TrimSpace '' Sua sdei '' = ''Sua sdei''"
  unfolding TrimSpace_def
  apply (simp add: utf8_simps IsSpace_def)
  apply (subst TrimRightSpace.simps, simp add: DecodeLastRune_def utf8_simps IsSpace_def)
  apply (subst TrimRightSpace.simps, simp add: DecodeLastRune_def utf8_simps IsSpace_def)
  done

lemma loadJSON_absent: "fs path = Absent \<Longrightarrow> loadJSON fs path = []"
  by (simp add: loadJSON_def ReadFile_def)

lemma saveJSON_bytes_k_sua: "saveJSON_bytes [(''k'', ''sua'')] = doc_k_sua"
  by (simp add: encode_simps doc_k_sua_def text_simps)

lemma TrimSpace_sua: "TrimSpace ''sua'' = ''sua''"
  unfolding TrimSpace_def
  apply (simp add: utf8_simps IsSpace_def)
  apply (subst TrimRightSpace.simps, simp add: DecodeLastRune_def utf8_simps IsSpace_def)
  done

lemma googleTranslate_env_km_readonly: "googleTranslate env_km_readonly text lang = Inr ''sua''"
  by (simp add: googleTranslate_def env_km_readonly_def env_reply_def env_w_def reply_sua_def
      Unmarshal_slice_def TrimSpace_sua)

section \<open>UTF-8: decoding a well-formed rune and encoding it again\<close>

lemma DecodeRune_valid_cases:
  assumes "DecodeRune (c # cs) = (r, w)" and "\<not> (r = RuneError \<and> w = 1)" and "\<not> byte c < 0x80"
  shows "(\<exists>c1 p. cs = c1 # p \<and> w = 2 \<and> wf2 (byte c) (byte c1)
            \<and> r = (byte c mod 32) * 64 + byte c1 mod 64)
       \<or> (\<exists>c1 c2 p. cs = c1 # c2 # p \<and> w = 3 \<and> wf3 (byte c) (byte c1) (byte c2)
            \<and> r = (byte c mod 16) * 4096 + (byte c1 mod 64) * 64 + byte c2 mod 64)
       \<or> (\<exists>c1 c2 c3 p. cs = c1 # c2 # c3 # p \<and> w = 4 \<and> wf4 (byte c) (byte c1) (byte c2) (byte c3)
            \<and> r = (byte c mod 8) * 262144 + (byte c1 mod 64) * 4096 + (byte c2 mod 64) * 64
                  + byte c3 mod 64)"
  using assms
  by (auto simp: DecodeRune.simps Let_def lead_size_def wf2_def wf3_def wf4_def cont_def
      accept_lo_def accept_hi_def split: list.splits if_splits)

lemma DecodeRune_2: "wf2 (byte c) (byte c1) \<Longrightarrow>
   DecodeRune (c # c1 # t) = ((byte c mod 32) * 64 + byte c1 mod 64, 2)"
  by (auto simp: DecodeRune.simps Let_def lead_size_def wf2_def cont_def accept_lo_def accept_hi_def)

lemma DecodeRune_3: "wf3 (byte c) (byte c1) (byte c2) \<Longrightarrow>
   DecodeRune (c # c1 # c2 # t) = ((byte c mod 16) * 4096 + (byte c1 mod 64) * 64 + byte c2 mod 64, 3)"
  by (auto simp: DecodeRune.simps Let_def lead_size_def wf3_def)

lemma DecodeRune_4: "wf4 (byte c) (byte c1) (byte c2) (byte c3) \<Longrightarrow>
   DecodeRune (c # c1 # c2 # c3 # t) = ((byte c mod 8) * 262144 + (byte c1 mod 64) * 4096 + (byte c2 mod 64) * 64
                  + byte c3 mod 64, 4)"
  by (auto simp: DecodeRune.simps Let_def lead_size_def wf4_def)

lemma mod_shift: "k mod m = 0 \<Longrightarrow> x < m \<Longrightarrow> (k + x) mod m = (x::nat)"
  by (metis mod_add_left_eq add_0 mod_less)

lemma digits64:
  fixes a b :: nat
  assumes "b < 64"
  shows "(a * 64 + b) mod 64 = b" and "(a * 64 + b) div 64 = a"
  using assms by simp_all

lemma EncodeRune_2:
  assumes "wf2 (byte c) (byte c1)"
  shows "EncodeRune ((byte c mod 32) * 64 + byte c1 mod 64) = [c, c1]"
proof -
  define x where "x = byte c - 0xC0"
  define y where "y = byte c1 - 0x80"
  from assms have c: "byte c = 0xC0 + x" "2 \<le> x" "x < 32" and c1: "byte c1 = 0x80 + y" "y < 64"
    by (auto simp: wf2_def cont_def x_def y_def)
  have mx: "byte c mod 32 = x" using c by (simp add: mod_shift)
  have my: "byte c1 mod 64 = y" using c1 by (simp add: mod_shift)
  have "EncodeRune (x * 64 + y) = [char_of (0xC0 + x), char_of (0x80 + y)]"
    using c c1 by (simp add: EncodeRune_def)
  also have "\<dots> = [c, c1]"
    using c(1)[symmetric] c1(1)[symmetric] by (simp del: of_char_of)
  finally show ?thesis by (simp add: mx my)
qed

lemma EncodeRune_3:
  assumes "wf3 (byte c) (byte c1) (byte c2)"
  shows "EncodeRune ((byte c mod 16) * 4096 + (byte c1 mod 64) * 64 + byte c2 mod 64) = [c, c1, c2]"
proof -
  define x where "x = byte c - 0xE0"
  define y where "y = byte c1 - 0x80"
  define z where "z = byte c2 - 0x80"
  define r where "r = (x * 64 + y) * 64 + z"
  from assms have c: "byte c = 0xE0 + x" "x < 16" and c1: "byte c1 = 0x80 + y" "y < 64"
    and c2: "byte c2 = 0x80 + z" "z < 64" and lo: "x = 0 \<longrightarrow> 32 \<le> y" and hi: "x = 13 \<longrightarrow> y < 32"
    by (auto simp: wf3_def cont_def x_def y_def z_def accept_lo_def accept_hi_def split: if_splits)
  have mx: "byte c mod 16 = x" using c by (simp add: mod_shift)
  have my: "byte c1 mod 64 = y" using c1 by (simp add: mod_shift)
  have mz: "byte c2 mod 64 = z" using c2 by (simp add: mod_shift)
  have r: "x * 4096 + y * 64 + z = r" by (simp add: r_def algebra_simps)
  have b1: "0x7FF < r" unfolding r_def using lo c1 c2 c by (cases "x = 0") auto
  have b2: "\<not> (0xD800 \<le> r \<and> r \<le> 0xDFFF)"
  proof -
    consider "x \<le> 12" | "x = 13" | "14 \<le> x" by linarith
    then show ?thesis
      unfolding r_def using hi c c1 c2 by cases auto
  qed
  have b3: "r \<le> 0xFFFF" unfolding r_def using c c1 c2 by auto
  have d3: "r mod 64 = z" unfolding r_def by (rule digits64(1)[OF c2(2)])
  have d2': "r div 64 = x * 64 + y" unfolding r_def by (rule digits64(2)[OF c2(2)])
  have d2: "r div 64 mod 64 = y" unfolding d2' by (rule digits64(1)[OF c1(2)])
  have d1': "r div 64 div 64 = x" unfolding d2' by (rule digits64(2)[OF c1(2)])
  have d1: "r div 4096 = x"
  proof -
    have "r div 4096 = r div (64 * 64)" by simp
    also have "\<dots> = r div 64 div 64" by (simp only: div_mult2_eq)
    finally show ?thesis using d1' by simp
  qed
  have "EncodeRune r = [char_of (0xE0 + x), char_of (0x80 + y), char_of (0x80 + z)]"
    using b1 b2 b3 by (auto simp: EncodeRune_def d1 d2 d3)
  also have "\<dots> = [c, c1, c2]"
    using c(1)[symmetric] c1(1)[symmetric] c2(1)[symmetric] by (simp del: of_char_of)
  finally show ?thesis by (simp add: mx my mz r)
qed

lemma EncodeRune_4:
  assumes "wf4 (byte c) (byte c1) (byte c2) (byte c3)"
  shows "EncodeRune ((byte c mod 8) * 262144 + (byte c1 mod 64) * 4096 + (byte c2 mod 64) * 64
                  + byte c3 mod 64) = [c, c1, c2, c3]"
proof -
  define x where "x = byte c - 0xF0"
  define y where "y = byte c1 - 0x80"
  define z where "z = byte c2 - 0x80"
  define t where "t = byte c3 - 0x80"
  define r where "r = ((x * 64 + y) * 64 + z) * 64 + t"
  from assms have c: "byte c = 0xF0 + x" "x < 5" and c1: "byte c1 = 0x80 + y" "y < 64"
    and c2: "byte c2 = 0x80 + z" "z < 64" and c3: "byte c3 = 0x80 + t" "t < 64"
    and lo: "x = 0 \<longrightarrow> 16 \<le> y" and hi: "x = 4 \<longrightarrow> y < 16"
    by (auto simp: wf4_def cont_def x_def y_def z_def t_def accept_lo_def accept_hi_def split: if_splits)
  have mx: "byte c mod 8 = x" using c by (simp add: mod_shift)
  have my: "byte c1 mod 64 = y" using c1 by (simp add: mod_shift)
  have mz: "byte c2 mod 64 = z" using c2 by (simp add: mod_shift)
  have mt: "byte c3 mod 64 = t" using c3 by (simp add: mod_shift)
  have r: "x * 262144 + y * 4096 + z * 64 + t = r" by (simp add: r_def algebra_simps)
  have b1: "0xFFFF < r" unfolding r_def using lo c c1 c2 c3 by (cases "x = 0") auto
  have b2: "r \<le> 0x10FFFF"
  proof -
    consider "x \<le> 3" | "x = 4" using c by linarith
    then show ?thesis unfolding r_def using hi c c1 c2 c3 by cases auto
  qed
  have d3: "r mod 64 = t" unfolding r_def by (rule digits64(1)[OF c3(2)])
  have e3: "r div 64 = (x * 64 + y) * 64 + z" unfolding r_def by (rule digits64(2)[OF c3(2)])
  have d2: "r div 64 mod 64 = z" unfolding e3 by (rule digits64(1)[OF c2(2)])
  have e2: "r div 64 div 64 = x * 64 + y" unfolding e3 by (rule digits64(2)[OF c2(2)])
  have d1': "r div 64 div 64 mod 64 = y" unfolding e2 by (rule digits64(1)[OF c1(2)])
  have e1: "r div 64 div 64 div 64 = x" unfolding e2 by (rule digits64(2)[OF c1(2)])
  have q1: "r div 4096 = r div 64 div 64"
  proof -
    have "r div 4096 = r div (64 * 64)" by simp
    also have "\<dots> = r div 64 div 64" by (simp only: div_mult2_eq)
    finally show ?thesis .
  qed
  have q0: "r div 262144 = r div 64 div 64 div 64"
  proof -
    have "r div 262144 = r div (64 * 64 * 64)" by simp
    also have "\<dots> = r div 64 div 64 div 64" by (simp only: div_mult2_eq)
    finally show ?thesis .
  qed
  have "EncodeRune r = [char_of (0xF0 + x), char_of (0x80 + y), char_of (0x80 + z), char_of (0x80 + t)]"
    using b1 b2 by (auto simp: EncodeRune_def q0 q1 e1 d1' d2 d3)
  also have "\<dots> = [c, c1, c2, c3]"
    using c(1)[symmetric] c1(1)[symmetric] c2(1)[symmetric] c3(1)[symmetric] by (simp del: of_char_of)
  finally show ?thesis by (simp add: mx my mz mt r)
qed

section \<open>A string literal written by the encoder, read by the decoder\<close>

lemma below_16:
  assumes "n < (16::nat)"
  shows "n \<in> {0, 1, 2, 3, 4, 5, 6, 7, 8, 9, 10, 11, 12, 13, 14, 15}"
proof -
  from assms have "n \<in> set [0..<16]" by simp
  also have "[0..<16] = [0, 1, 2, 3, 4, 5, 6, 7, 8, 9, 10, 11, 12, 13, 14, 15::nat]"
    by (simp add: upt_rec)
  finally show ?thesis by simp
qed

lemma hexval_hex: "n < 16 \<Longrightarrow> hexval (hex n) = Some n"
  by (drule below_16) (auto simp: hex_def hexval_def)

lemma hexval_0: "hexval (CHR ''0'') = Some 0"
  by (simp add: hexval_def)

lemma hex4_u00: "b < 256 \<Longrightarrow> hex4 (CHR ''0'' # CHR ''0'' # hex (b div 16) # hex (b mod 16) # t) = Some b"
proof -
  assume "b < 256"
  then have "b div 16 < 16" by (simp add: div_less_iff_less_mult)
  then show ?thesis by (simp add: hex4_def hexval_hex hexval_0)
qed

lemma char_eq_byte: "c = d \<longleftrightarrow> byte c = byte d"
  by simp

lemma unquote_escape_byte:
  assumes "byte c < 0x80" and "unquote_rest t = Some (s, rest)"
  shows "unquote_rest (escape_byte c @ t) = Some (c # s, rest)"
proof (cases "htmlSafe (byte c)")
  case True
  then have "c \<noteq> dq" "c \<noteq> bs" "\<not> byte c < 0x20"
    by (auto simp: htmlSafe_def dq_def bs_def)
  with True assms show ?thesis by (simp add: escape_byte_def)
next
  case False
  have bsdq: "bs \<noteq> dq" by (simp add: bs_def dq_def)
  consider (q) "byte c = 0x5C \<or> byte c = 0x22" | (b) "byte c = 0x08" | (f) "byte c = 0x0C"
    | (n) "byte c = 0x0A" | (r) "byte c = 0x0D" | (t) "byte c = 0x09"
    | (u) "byte c \<noteq> 0x5C" "byte c \<noteq> 0x22" "byte c \<noteq> 0x08" "byte c \<noteq> 0x0C" "byte c \<noteq> 0x0A"
          "byte c \<noteq> 0x0D" "byte c \<noteq> 0x09"
    by blast
  then show ?thesis
  proof cases
    case q
    then have "c = bs \<or> c = dq" by (auto simp: char_eq_byte[of c] bs_def dq_def)
    with False assms bsdq show ?thesis
      by (auto simp: escape_byte_def unescape_def simple_escape_def htmlSafe_def bs_def dq_def)
  next
    case b
    then have c: "c = CHR 0x08" by (simp add: char_eq_byte[of c])
    show ?thesis using assms(2) bsdq unfolding c
      by (simp add: escape_byte_def htmlSafe_def unescape_def simple_escape_def dq_def bs_def)
  next
    case f
    then have c: "c = CHR 0x0C" by (simp add: char_eq_byte[of c])
    show ?thesis using assms(2) bsdq unfolding c
      by (simp add: escape_byte_def htmlSafe_def unescape_def simple_escape_def dq_def bs_def)
  next
    case n
    then have c: "c = CHR 0x0A" by (simp add: char_eq_byte[of c])
    show ?thesis using assms(2) bsdq unfolding c
      by (simp add: escape_byte_def htmlSafe_def unescape_def simple_escape_def dq_def bs_def nl_def)
  next
    case r
    then have c: "c = CHR 0x0D" by (simp add: char_eq_byte[of c])
    show ?thesis using assms(2) bsdq unfolding c
      by (simp add: escape_byte_def htmlSafe_def unescape_def simple_escape_def dq_def bs_def)
  next
    case t
    then have c: "c = CHR 0x09" by (simp add: char_eq_byte[of c])
    show ?thesis using assms(2) bsdq unfolding c
      by (simp add: escape_byte_def htmlSafe_def unescape_def simple_escape_def dq_def bs_def)
  next
    case u
    then have e: "escape_byte c = [bs, CHR ''u'', CHR ''0'', CHR ''0'', hex (byte c div 16), hex (byte c mod 16)]"
      using False by (simp add: escape_byte_def Let_def)
    have h: "hex4 (CHR ''0'' # CHR ''0'' # hex (byte c div 16) # hex (byte c mod 16) # t) = Some (byte c)"
      by (rule hex4_u00) simp
    have enc: "EncodeRune (byte c) = [c]" using assms(1) by (simp add: EncodeRune_def)
    have un: "unescape (CHR ''u'' # CHR ''0'' # CHR ''0'' # hex (byte c div 16) # hex (byte c mod 16) # t)
                = Some ([c], 5)"
      using assms(1) by (simp add: unescape_def h enc)
    show ?thesis using assms(2) bsdq by (simp add: e un)
  qed
qed

lemma unquote_ufffd:
  assumes "unquote_rest t = Some (s, rest)"
  shows "unquote_rest ([bs, CHR ''u'', CHR ''f'', CHR ''f'', CHR ''f'', CHR ''d''] @ t)
           = Some (EncodeRune RuneError @ s, rest)"
proof -
  have bsdq: "bs \<noteq> dq" by (simp add: bs_def dq_def)
  have h: "hex4 (CHR ''f'' # CHR ''f'' # CHR ''f'' # CHR ''d'' # t) = Some RuneError"
    by (simp add: hex4_def hexval_def RuneError_def)
  have un: "unescape (CHR ''u'' # CHR ''f'' # CHR ''f'' # CHR ''f'' # CHR ''d'' # t)
              = Some (EncodeRune RuneError, 5)"
    by (simp add: unescape_def h) (simp add: RuneError_def)
  show ?thesis using assms bsdq by (simp add: un)
qed

lemma unquote_u202x:
  assumes "unquote_rest t = Some (s, rest)" and "r = 0x2028 \<or> r = 0x2029"
  shows "unquote_rest ([bs, CHR ''u'', CHR ''2'', CHR ''0'', CHR ''2'', hex (r mod 16)] @ t)
           = Some (EncodeRune r @ s, rest)"
proof -
  have bsdq: "bs \<noteq> dq" by (simp add: bs_def dq_def)
  have h: "hex4 (CHR ''2'' # CHR ''0'' # CHR ''2'' # hex (r mod 16) # t) = Some r"
    using assms(2) by (auto simp: hex4_def hexval_def hex_def)
  have un: "unescape (CHR ''u'' # CHR ''2'' # CHR ''0'' # CHR ''2'' # hex (r mod 16) # t)
              = Some (EncodeRune r, 5)"
    using assms(2) by (auto simp: unescape_def h)
  show ?thesis using assms(1) bsdq by (simp add: un)
qed


lemma DecodeRune_ascii: "byte c < 0x80 \<Longrightarrow> DecodeRune (c # cs) = (byte c, 1)"
  by (simp add: DecodeRune.simps lead_size_def)

lemma high_not_special: "\<not> byte c < 0x80 \<Longrightarrow> c \<noteq> dq \<and> c \<noteq> bs \<and> \<not> byte c < 0x20"
  by (auto simp: dq_def bs_def)

lemma unquote_valid_rune:
  assumes d: "DecodeRune (c # cs) = (r, w)" and v: "\<not> (r = RuneError \<and> w = 1)"
    and h: "\<not> byte c < 0x80" and u: "unquote_rest t = Some (s, rest)"
  shows "unquote_rest (take w (c # cs) @ t) = Some (EncodeRune r @ s, rest)"
proof -
  note sp = high_not_special[OF h]
  from DecodeRune_valid_cases[OF d v h]
  consider (two) c1 p where "cs = c1 # p" "w = 2" "wf2 (byte c) (byte c1)"
      "r = (byte c mod 32) * 64 + byte c1 mod 64"
    | (three) c1 c2 p where "cs = c1 # c2 # p" "w = 3" "wf3 (byte c) (byte c1) (byte c2)"
      "r = (byte c mod 16) * 4096 + (byte c1 mod 64) * 64 + byte c2 mod 64"
    | (four) c1 c2 c3 p where "cs = c1 # c2 # c3 # p" "w = 4"
      "wf4 (byte c) (byte c1) (byte c2) (byte c3)"
      "r = (byte c mod 8) * 262144 + (byte c1 mod 64) * 4096 + (byte c2 mod 64) * 64
                  + byte c3 mod 64"
    by blast
  then show ?thesis
  proof cases
    case two
    have "DecodeRune (c # c1 # t) = (r, 2)" using DecodeRune_2[OF two(3)] two(4) by simp
    then show ?thesis using two(1,2) sp h u by simp
  next
    case three
    have "DecodeRune (c # c1 # c2 # t) = (r, 3)" using DecodeRune_3[OF three(3)] three(4) by simp
    then show ?thesis using three(1,2) sp h u by simp
  next
    case four
    have "DecodeRune (c # c1 # c2 # c3 # t) = (r, 4)" using DecodeRune_4[OF four(3)] four(4) by simp
    then show ?thesis using four(1,2) sp h u by simp
  qed
qed

lemma EncodeRune_DecodeRune:
  assumes d: "DecodeRune (c # cs) = (r, w)" and v: "\<not> (r = RuneError \<and> w = 1)"
    and h: "\<not> byte c < 0x80"
  shows "EncodeRune r = take w (c # cs)"
  using DecodeRune_valid_cases[OF d v h]
  by (auto simp: EncodeRune_2 EncodeRune_3 EncodeRune_4)

lemma unquote_appendString_body:
  "unquote_rest (appendString_body s @ dq # rest) = Some (coerce_utf8 s, rest)"
proof (induction s rule: appendString_body.induct)
  case 1
  then show ?case by simp
next
  case (2 c cs)
  show ?case
  proof (cases "byte c < 0x80")
    case True
    with "2.IH"(1) show ?thesis by (simp add: unquote_escape_byte)
  next
    case False
    obtain r w where d: "DecodeRune (c # cs) = (r, w)" by (cases "DecodeRune (c # cs)")
    have co: "coerce_utf8 (c # cs) = EncodeRune r @ coerce_utf8 (drop (w - 1) cs)"
      using False d by simp
    show ?thesis
    proof (cases "r = RuneError \<and> w = 1")
      case True
      have ab: "appendString_body (c # cs)
                  = [bs, CHR ''u'', CHR ''f'', CHR ''f'', CHR ''f'', CHR ''d''] @ appendString_body cs"
        using False d True by simp
      from "2.IH"(2)[OF False d[symmetric] True]
      have "unquote_rest (appendString_body cs @ dq # rest) = Some (coerce_utf8 cs, rest)" .
      from unquote_ufffd[OF this] show ?thesis
        unfolding ab co append_assoc using True by simp
    next
      case valid: False
      show ?thesis
      proof (cases "r = 0x2028 \<or> r = 0x2029")
        case True
        have ab: "appendString_body (c # cs)
                    = [bs, CHR ''u'', CHR ''2'', CHR ''0'', CHR ''2'', hex (r mod 16)]
                        @ appendString_body (drop (w - 1) cs)"
          using False d valid True by auto
        from "2.IH"(3)[OF False d[symmetric] valid True]
        have "unquote_rest (appendString_body (drop (w - 1) cs) @ dq # rest)
                = Some (coerce_utf8 (drop (w - 1) cs), rest)" .
        from unquote_u202x[OF this True] show ?thesis
          unfolding ab co append_assoc .
      next
        case other: False
        have ab: "appendString_body (c # cs)
                    = take w (c # cs) @ appendString_body (drop (w - 1) cs)"
          using False d valid other by auto
        from "2.IH"(4)[OF False d[symmetric] valid other]
        have "unquote_rest (appendString_body (drop (w - 1) cs) @ dq # rest)
                = Some (coerce_utf8 (drop (w - 1) cs), rest)" .
        from unquote_valid_rune[OF d valid False this] show ?thesis
          unfolding ab co append_assoc .
      qed
    qed
  qed
qed

lemma coerce_utf8_valid: "ValidString s \<Longrightarrow> coerce_utf8 s = s"
proof (induction s rule: coerce_utf8.induct)
  case 1
  then show ?case by simp
next
  case (2 c cs)
  show ?case
  proof (cases "byte c < 0x80")
    case True
    then have "DecodeRune (c # cs) = (byte c, 1)" by (rule DecodeRune_ascii)
    with "2.prems" have "ValidString cs" by simp
    with "2.IH"(1)[OF True] True show ?thesis by simp
  next
    case False
    obtain r w where d: "DecodeRune (c # cs) = (r, w)" by (cases "DecodeRune (c # cs)")
    with "2.prems" have v: "\<not> (r = RuneError \<and> w = 1)" and rest: "ValidString (drop (w - 1) cs)"
      by simp_all
    from "2.IH"(2)[OF False d[symmetric] rest]
    have ih: "coerce_utf8 (drop (w - 1) cs) = drop (w - 1) cs" .
    have "1 \<le> w" using DecodeRune_width[of "c # cs"] d by simp
    then have "take w (c # cs) @ drop (w - 1) cs = c # cs"
      by (cases w) simp_all
    with EncodeRune_DecodeRune[OF d v False] ih False d show ?thesis by simp
  qed
qed

section \<open>A document written by the encoder, read by the decoder\<close>

lemma saveJSON_written:
  "snd (saveJSON env fs path data) = None \<Longrightarrow>
     fst (saveJSON env fs path data) = fs(path := write_node env (fs path) (saveJSON_bytes data))"
  by (auto simp: saveJSON_def WriteFile_def Let_def split: option.splits)

lemma contents_write_node: "contents (write_node env node b) = Some b"
  by (simp add: write_node_def split: fnode.splits)

lemma write_node_reads_back: "reads_back env node \<Longrightarrow> write_node env node b = File b"
  by (simp add: write_node_def reads_back_def split: fnode.splits)

lemma write_node_env_w: "write_node env_w Absent b = File b"
  by (simp add: write_node_def env_w_def)

lemma keys_update: "keys_of (AList.update k v m) = insert k (keys_of m)"
  by (auto simp: update_keys keys_of_def)

lemma index_update: "index (AList.update k v m) k = v"
  by (simp add: index_def update_conv')

lemma fst_entry_coerce: "fst (entry_coerce kv) = coerce_utf8 (fst kv)"
  by (simp add: entry_coerce_def)

lemma snd_entry_coerce: "snd (entry_coerce kv) = coerce_utf8 (snd kv)"
  by (simp add: entry_coerce_def)

lemma lex_space: "lex (CHR '' '' # t) = lex t"
  by (simp add: is_space_def)

lemma lex_nl: "lex (nl # t) = lex t"
  by (simp add: is_space_def)

lemma lex_colon: "lex (CHR '':'' # t) = map_option ((#) Colon) (lex t)"
  by (simp add: is_space_def nl_def)

lemma lex_comma: "lex (CHR '','' # t) = map_option ((#) Comma) (lex t)"
  by (simp add: is_space_def nl_def)

lemma lex_lbrace: "lex (CHR ''{'' # t) = map_option ((#) LBrace) (lex t)"
  by (simp add: is_space_def nl_def)

lemma lex_rbrace: "lex (CHR ''}'' # t) = map_option ((#) RBrace) (lex t)"
  by (simp add: is_space_def nl_def)

lemma lex_dq:
  "lex (dq # t) = (case unquote_rest t of None \<Rightarrow> None
                   | Some (s, rest) \<Rightarrow> map_option ((#) (TString s)) (lex rest))"
  by (simp add: is_space_def nl_def dq_def)

lemmas lex_char = lex_space lex_nl lex_colon lex_comma lex_lbrace lex_rbrace lex_dq lex.simps(1)

lemma lex_string:
  "lex (appendString s @ t) = map_option ((#) (TString (coerce_utf8 s))) (lex t)"
  by (simp add: appendString_def lex_dq unquote_appendString_body del: lex.simps)

lemma lex_member_line:
  "lex (member_line kv @ t)
     = map_option (\<lambda>ts. TString (coerce_utf8 (fst kv)) # Colon # TString (coerce_utf8 (snd kv)) # ts) (lex t)"
proof -
  have "lex (member_line kv @ t) = lex (appendString (fst kv) @ (CHR '':'' # CHR '' '' # appendString (snd kv) @ t))"
    by (simp add: member_line_def lex_space del: lex.simps)
  also have "\<dots> = map_option ((#) (TString (coerce_utf8 (fst kv)))) (lex (CHR '':'' # CHR '' '' # appendString (snd kv) @ t))"
    by (rule lex_string)
  also have "lex (CHR '':'' # CHR '' '' # appendString (snd kv) @ t)
               = map_option ((#) Colon) (map_option ((#) (TString (coerce_utf8 (snd kv)))) (lex t))"
    by (simp add: lex_colon lex_space lex_string del: lex.simps)
  finally show ?thesis by (simp add: option.map_comp comp_def del: lex.simps)
qed

lemma lex_closing: "lex [nl, CHR ''}''] = Some [RBrace]"
  by (simp add: lex_char del: lex.simps(2))

lemma lex_join_members:
  "kvs \<noteq> [] \<Longrightarrow>
   lex (join_members (map member_line kvs) @ [nl, CHR ''}'']) = Some (member_tokens (map entry_coerce kvs))"
proof (induction kvs rule: member_tokens.induct)
  case 1
  then show ?case by simp
next
  case (2 kv)
  show ?case by (simp add: lex_member_line lex_closing fst_entry_coerce snd_entry_coerce del: lex.simps)
next
  case (3 kv kv' kvs)
  then have ih: "lex (join_members (map member_line (kv' # kvs)) @ [nl, CHR ''}''])
                   = Some (member_tokens (map entry_coerce (kv' # kvs)))" by simp
  have "lex (join_members (map member_line (kv # kv' # kvs)) @ [nl, CHR ''}''])
          = lex (member_line kv @ (CHR '','' # nl # join_members (map member_line (kv' # kvs)) @ [nl, CHR ''}'']))"
    by (simp del: lex.simps)
  also have "\<dots> = map_option (\<lambda>ts. TString (coerce_utf8 (fst kv)) # Colon # TString (coerce_utf8 (snd kv)) # ts)
                     (lex (CHR '','' # nl # join_members (map member_line (kv' # kvs)) @ [nl, CHR ''}'']))"
    by (rule lex_member_line)
  also have "lex (CHR '','' # nl # join_members (map member_line (kv' # kvs)) @ [nl, CHR ''}''])
               = Some (Comma # member_tokens (map entry_coerce (kv' # kvs)))"
    using ih by (simp add: lex_comma lex_nl del: lex.simps)
  finally show ?case by (simp add: fst_entry_coerce snd_entry_coerce del: lex.simps)
qed

lemma members_member_tokens:
  "kvs \<noteq> [] \<Longrightarrow> members (member_tokens kvs) m = Some (store_all m kvs)"
proof (induction kvs arbitrary: m rule: member_tokens.induct)
  case 1
  then show ?case by simp
next
  case (2 kv)
  show ?case by (simp add: store_all_def)
next
  case (3 kv kv' kvs)
  then show ?case by (simp add: store_all_def)
qed

lemma Unmarshal_MarshalIndent:
  "Unmarshal (MarshalIndent m) = Inr (Some (store_all [] (map entry_coerce (sorted_entries m))))"
proof (cases "m = []")
  case True
  then show ?thesis
    by (simp add: MarshalIndent_def Unmarshal_def store_all_def sorted_entries_def lex_char del: lex.simps(2))
next
  case False
  have ks: "sort (map fst m) \<noteq> []"
  proof
    assume "sort (map fst m) = []"
    then have "length (sort (map fst m)) = 0" by simp
    with False show False by simp
  qed
  then have ne: "sorted_entries m \<noteq> []" by (simp add: sorted_entries_def)
  have "MarshalIndent m = CHR ''{'' # nl # join_members (map member_line (sorted_entries m)) @ [nl, CHR ''}'']"
    using ks by (simp add: MarshalIndent_def sorted_entries_def comp_def Let_def)
  then have "lex (MarshalIndent m) = Some (LBrace # member_tokens (map entry_coerce (sorted_entries m)))"
    using lex_join_members[OF ne] by (simp add: lex_lbrace lex_nl del: lex.simps)
  moreover have "member_tokens (map entry_coerce (sorted_entries m)) \<noteq> [RBrace]"
    using ne by (cases "sorted_entries m" rule: member_tokens.cases) simp_all
  moreover have "decode_tokens (LBrace # ts) = (case members ts [] of None \<Rightarrow> Inl (Error ''json: cannot unmarshal into Go value of type map[string]string'') | Some m \<Rightarrow> Inr (Some m))"
    if "ts \<noteq> [RBrace]" for ts
    using that by (cases "LBrace # ts" rule: decode_tokens.cases) simp_all
  ultimately show ?thesis
    using members_member_tokens[of "map entry_coerce (sorted_entries m)" "[]"] ne
    by (simp add: Unmarshal_def)
qed

lemma update_fresh: "k \<notin> fst ` set al \<Longrightarrow> AList.update k v al = al @ [(k, v)]"
  by (induction al) auto

lemma store_all_fresh:
  "distinct (map fst kvs) \<Longrightarrow> fst ` set kvs \<inter> fst ` set acc = {} \<Longrightarrow> store_all acc kvs = acc @ kvs"
proof (induction kvs arbitrary: acc)
  case Nil
  then show ?case by (simp add: store_all_def)
next
  case (Cons kv kvs)
  from Cons.prems have f: "fst kv \<notin> fst ` set acc" by auto
  have u: "AList.update (fst kv) (snd kv) acc = acc @ [kv]" by (simp add: update_fresh[OF f])
  from Cons.prems have d: "distinct (map fst kvs)" and
    i: "fst ` set kvs \<inter> fst ` set (acc @ [kv]) = {}" by auto
  have "store_all acc (kv # kvs) = store_all (acc @ [kv]) kvs" by (simp add: store_all_def u)
  also have "\<dots> = (acc @ [kv]) @ kvs" by (rule Cons.IH[OF d i])
  finally show ?case by simp
qed

lemma keys_of_store_all: "keys_of (store_all acc kvs) = keys_of acc \<union> fst ` set kvs"
proof (induction kvs arbitrary: acc)
  case Nil
  then show ?case by (simp add: store_all_def)
next
  case (Cons kv kvs)
  have "store_all acc (kv # kvs) = store_all (AList.update (fst kv) (snd kv) acc) kvs"
    by (simp add: store_all_def)
  then show ?case using Cons.IH[of "AList.update (fst kv) (snd kv) acc"]
    by (auto simp: keys_update)
qed

lemma distinct_store_all: "distinct (map fst acc) \<Longrightarrow> distinct (map fst (store_all acc kvs))"
proof (induction kvs arbitrary: acc)
  case Nil
  then show ?case by (simp add: store_all_def)
next
  case (Cons kv kvs)
  have "store_all acc (kv # kvs) = store_all (AList.update (fst kv) (snd kv) acc) kvs"
    by (simp add: store_all_def)
  then show ?case using Cons.IH[of "AList.update (fst kv) (snd kv) acc"] Cons.prems
    by (simp add: distinct_update)
qed

lemma keys_sorted_entries: "map fst (sorted_entries m) = sort (map fst m)"
  by (simp add: sorted_entries_def comp_def)

lemma map_of_tabulate: "map_of (map (\<lambda>k. (k, f k)) ks) k = (if k \<in> set ks then Some (f k) else None)"
  by (induction ks) auto

lemma map_of_sorted_entries: "map_of (sorted_entries m) = map_of m"
proof
  fix k
  show "map_of (sorted_entries m) k = map_of m k"
  proof (cases "map_of m k")
    case None
    then have "k \<notin> set (map fst m)" by (simp add: map_of_eq_None_iff)
    with None show ?thesis by (simp add: sorted_entries_def map_of_tabulate)
  next
    case (Some v)
    then have "k \<in> set (map fst m)" by (metis map_of_eq_None_iff option.distinct(1) set_map)
    with Some show ?thesis by (simp add: sorted_entries_def map_of_tabulate index_def)
  qed
qed

lemma index_sorted_entries: "index (sorted_entries m) k = index m k"
  by (simp add: index_def map_of_sorted_entries)

lemma sorted_entries_idem: "sorted_entries (sorted_entries m) = sorted_entries m"
proof -
  have "sort (map fst (sorted_entries m)) = sort (map fst m)"
    by (simp add: keys_sorted_entries sorted_sort_id)
  then show ?thesis
    unfolding sorted_entries_def[of "sorted_entries m"]
    by (simp add: index_sorted_entries) (simp add: sorted_entries_def)
qed

lemma canonical_members_join: "canonical_members kvs = join_members (map member_line kvs)"
  by (induction kvs rule: canonical_members.induct) (simp_all add: member_line_def)

lemma MarshalIndent_canonical: "MarshalIndent m = canonical_document (sorted_entries m)"
proof -
  have "sort (map fst m) = [] \<longleftrightarrow> m = []"
    by (metis length_0_conv length_map length_sort)
  then show ?thesis
    by (simp add: MarshalIndent_def canonical_document_def canonical_members_join sorted_entries_def
        comp_def Let_def)
qed

lemma saveJSON_bytes_MarshalIndent:
  assumes "distinct (map fst m)"
  shows "saveJSON_bytes m = MarshalIndent m"
proof -
  have d: "distinct (map fst (sorted_entries m))"
    using assms by (simp add: keys_sorted_entries)
  have "foldl (\<lambda>acc k. AList.update k (index m k) acc) [] (sort (map fst m))
          = store_all [] (sorted_entries m)"
    by (simp add: store_all_def sorted_entries_def foldl_map)
  also have "\<dots> = sorted_entries m" using store_all_fresh[OF d, of "[]"] by simp
  finally have "saveJSON_bytes m = MarshalIndent (sorted_entries m)"
    by (simp add: saveJSON_bytes_def)
  then show ?thesis by (simp add: MarshalIndent_canonical sorted_entries_idem)
qed

lemma sorted_entries_cong:
  assumes "distinct (map fst m1)" and "distinct (map fst m2)" and "map_of m1 = map_of m2"
  shows "sorted_entries m1 = sorted_entries m2"
proof -
  have "set (map fst m1) = set (map fst m2)"
    using assms(3) by (metis dom_map_of_conv_image_fst set_map)
  then have "sort (map fst m1) = sort (map fst m2)"
    using assms(1,2) by (intro sorted_distinct_set_unique) simp_all
  moreover have "index m1 = index m2" using assms(3) by (simp add: index_def fun_eq_iff)
  ultimately show ?thesis by (simp add: sorted_entries_def)
qed

section \<open>Setup errors and the exit status\<close>

lemma initBasePath_Inl_out: "fst (initBasePath env) = Inl err \<Longrightarrow> initBasePath env = (Inl err, [])"
  by (auto simp: initBasePath_def Let_def split: sum.splits option.splits)

text \<open>
  C3, as the spec has it: when the base directory cannot be created or accessed the
  process exits with a non-zero status. It does not. In \<open>env_nodir\<close> the directory
  cannot be created, \<open>runAdd\<close> prints the error and returns, \<^verbatim>\<open>Execute\<close> returns
  \<^verbatim>\<open>nil\<close>, and \<open>main\<close> ends with status 0.
\<close>

theorem setup_failure_nonzero_exit_counterexample:
  "fst (initBasePath env_nodir)
     = Inl (Error ''failed to create directory: mkdir /w/pkg: permission denied'')
   \<and> \<not> snd (snd (main env_nodir languages fs_empty (Runs (CmdAdd ''k'' ''v'')))) \<noteq> 0"
  by (simp add: initBasePath_env_nodir runAdd_def)

text \<open>
  C3, amended: for every invocation of add, list, update or remove, if the base storage
  directory cannot be created or accessed, the operation is aborted (no file is
  touched), the error is printed, and the process exits with status zero. Every
  invocation that reaches a handler exits with status zero, an already existing key
  included; the status is non-zero exactly when \<^verbatim>\<open>Execute\<close> itself returns an error.
\<close>

theorem setup_failure_exits_zero:
  "(fst (initBasePath env) = Inl err \<longrightarrow>
      main env order fs (Runs c) = (fs, cross_sign @ '' Error: '' @ message err @ [nl], 0))
   \<and> snd (snd (main env order fs (Runs c))) = 0
   \<and> (snd (snd (main env order fs ex)) \<noteq> 0 \<longleftrightarrow> (\<exists>e. ex = Fails e))"
proof (intro conjI impI)
  assume "fst (initBasePath env) = Inl err"
  then have i: "initBasePath env = (Inl err, [])" by (rule initBasePath_Inl_out)
  show "main env order fs (Runs c) = (fs, cross_sign @ '' Error: '' @ message err @ [nl], 0)"
    by (cases c) (simp_all add: i runAdd_def runList_def runUpdate_def runRemove_def)
next
  show "snd (snd (main env order fs (Runs c))) = 0"
    by (simp split: prod.splits)
next
  show "snd (snd (main env order fs ex)) \<noteq> 0 \<longleftrightarrow> (\<exists>e. ex = Fails e)"
    by (cases ex) (simp_all split: prod.splits)
qed

theorem setup_failure_exits_zero_witness:
  "fst (initBasePath env_nodir)
     = Inl (Error ''failed to create directory: mkdir /w/pkg: permission denied'')
   \<and> main env_nodir languages fs_kv (Runs (CmdRemove ''k''))
     = (fs_kv, cross_sign @ '' Error: failed to create directory: mkdir /w/pkg: permission denied''
                 @ [nl], 0)"
proof -
  have h: "fst (initBasePath env_nodir)
             = Inl (Error ''failed to create directory: mkdir /w/pkg: permission denied'')"
    by (simp add: initBasePath_env_nodir)
  from setup_failure_exits_zero[of env_nodir _ languages fs_kv "CmdRemove ''k''", THEN conjunct1, rule_format, OF h]
  show ?thesis using h by simp
qed

section \<open>Add on an existing key\<close>

text \<open>
  C4: when the key is already present in the reference catalog \<^verbatim>\<open>en.json\<close> (the base
  directory is there, so \<open>initBasePath\<close> succeeds), Add prints the "already exists"
  message and returns the file store it was given: no catalog, and no other path,
  changes by a single byte.
\<close>

theorem add_existing_key_rejected:
  assumes "fst (initBasePath env) = Inr basePath"
    and "exists (loadJSON fs (Join basePath ''en.json'')) key"
  shows "runAdd env order fs key val =
           (fs, snd (initBasePath env) @ warning_sign @ ''  Key '' @ [sq] @ key @ [sq]
                  @ '' already exists. Use '' @ [sq] @ ''update'' @ [sq]
                  @ '' command to modify it.'' @ [nl])"
proof -
  obtain r out where io: "initBasePath env = (r, out)" by (cases "initBasePath env")
  with assms(1) have r: "r = Inr basePath" by simp
  show ?thesis using assms(2) by (simp add: runAdd_def io r)
qed

theorem add_existing_key_rejected_witness:
  "fst (initBasePath env_w) = Inr base_w
   \<and> exists (loadJSON fs_kv (Join base_w ''en.json'')) ''k''
   \<and> runAdd env_w languages fs_kv ''k'' ''other'' =
       (fs_kv, folder_sign @ '' Using base path: '' @ base_w @ [nl] @ warning_sign @ ''  Key ''
          @ [sq] @ ''k'' @ [sq] @ '' already exists. Use '' @ [sq] @ ''update'' @ [sq]
          @ '' command to modify it.'' @ [nl])"
proof -
  have h1: "fst (initBasePath env_w) = Inr base_w" by (simp add: initBasePath_env_w)
  have h2: "exists (loadJSON fs_kv (Join base_w ''en.json'')) ''k''"
    by (simp add: loadJSON_fs_kv exists_def)
  from add_existing_key_rejected[OF h1 h2, of languages "''other''"] h1 h2
  show ?thesis by (simp add: initBasePath_env_w)
qed

section \<open>Loading never fails\<close>

text \<open>
  C8: \<open>loadJSON\<close> returns a catalog in every case (it has no error result), and the
  catalog is empty when the document of the language is absent, cannot be read, or
  does not decode as a flat mapping from strings to strings.
\<close>

theorem load_never_fails:
  assumes "fs path = Absent \<or> (\<exists>b. fs path = Unreadable b)
           \<or> (\<exists>b e. fs path = File b \<and> Unmarshal b = Inl e)"
  shows "loadJSON fs path = []"
  using assms by (auto simp: loadJSON_def ReadFile_def)

theorem load_never_fails_witness:
  "loadJSON fs_empty ''en.json'' = []
   \<and> loadJSON (fs_empty(''en.json'' := Unreadable doc_kv)) ''en.json'' = []
   \<and> loadJSON (fs_empty(''en.json'' := File doc_number)) ''en.json'' = []"
proof -
  have a: "fs_empty ''en.json'' = Absent" by (simp add: fs_empty_def)
  have b: "\<exists>b. (fs_empty(''en.json'' := Unreadable doc_kv)) ''en.json'' = Unreadable b" by simp
  have c: "\<exists>b e. (fs_empty(''en.json'' := File doc_number)) ''en.json'' = File b \<and> Unmarshal b = Inl e"
    by (simp add: Unmarshal_doc_number)
  show ?thesis
    using load_never_fails[of fs_empty "''en.json''"]
      load_never_fails[of "fs_empty(''en.json'' := Unreadable doc_kv)" "''en.json''"]
      load_never_fails[of "fs_empty(''en.json'' := File doc_number)" "''en.json''"] a b c
    by blast
qed

section \<open>Translation: fallback and response parsing\<close>

lemma write_fragments_eq: "write_fragments ts acc = acc @ concat (fragments ts)"
proof (induction ts arbitrary: acc)
  case Nil
  then show ?case by (simp add: fragments_def)
next
  case (Cons t ts)
  have step: "(case t of
          JArray arr \<Rightarrow>
            (case arr of
               [] \<Rightarrow> acc
             | first # _ \<Rightarrow>
                 (case first of JString str \<Rightarrow> acc @ str | _ \<Rightarrow> acc))
        | _ \<Rightarrow> acc) = acc @ concat (fragments [t])"
    by (simp add: fragments_def split: jvalue.splits list.splits)
  have "fragments (t # ts) = fragments [t] @ fragments ts" by (simp add: fragments_def)
  then show ?case using Cons.IH step by simp
qed

lemma fragments_none: "\<forall>t\<in>set ts. \<not> is_fragment t \<Longrightarrow> fragments ts = []"
proof (induction ts)
  case Nil
  then show ?case by (simp add: fragments_def)
next
  case (Cons t ts)
  then have "\<not> is_fragment t" by simp
  then have "fragments [t] = []"
    by (cases t rule: is_fragment.cases) (simp_all add: fragments_def)
  moreover have "fragments (t # ts) = fragments [t] @ fragments ts" by (simp add: fragments_def)
  ultimately show ?case using Cons by simp
qed

lemma TrimSpace_Nil: "TrimSpace [] = []"
  by (simp add: TrimSpace_def TrimRightSpace.simps)

text \<open>
  C5: for Add and Update on a language other than the reference language, when the
  translation provider returns an error the failure is logged, the untranslated source
  value is stored under the key in the catalog of that language, the catalog is saved
  (the key set grows by exactly the key, as for the reference language) and the usual
  success line is printed; when the write is accepted the document of the language
  holds the serialisation of that catalog (and nothing else in the store changes), as
  a file the program can read when it could read the document before, or created it
  readable.
\<close>

theorem translation_failure_falls_back:
  assumes "googleTranslate env val langCode = Inl err"
  shows "processAddOrUpdate env fs path key val False langCode =
           (fst (saveJSON env fs path (AList.update key val (loadJSON fs path))),
            cross_sign @ '' '' @ Base path @ '': Translation failed ('' @ message err
              @ ''), using English'' @ [nl]
              @ check_sign @ '' '' @ Base path @ '': '' @ val @ [nl])
       \<and> index (AList.update key val (loadJSON fs path)) key = val
       \<and> keys_of (AList.update key val (loadJSON fs path)) = insert key (keys_of (loadJSON fs path))
       \<and> (snd (saveJSON env fs path (AList.update key val (loadJSON fs path))) = None \<longrightarrow>
            fst (processAddOrUpdate env fs path key val False langCode)
              = fs(path := write_node env (fs path)
                             (saveJSON_bytes (AList.update key val (loadJSON fs path))))
            \<and> contents (fst (processAddOrUpdate env fs path key val False langCode) path)
                = Some (saveJSON_bytes (AList.update key val (loadJSON fs path)))
            \<and> (reads_back env (fs path) \<longrightarrow>
                 fst (processAddOrUpdate env fs path key val False langCode)
                   = fs(path := File (saveJSON_bytes (AList.update key val (loadJSON fs path))))))"
  using assms
  by (simp add: processAddOrUpdate_def index_update keys_update saveJSON_written
      contents_write_node write_node_reads_back)

theorem translation_failure_falls_back_witness:
  "googleTranslate env_w ''hello'' ''km'' = Inl (Error ''request failed: no route to host'')
   \<and> processAddOrUpdate env_w fs_empty (Join base_w ''km.json'') ''k'' ''hello'' False ''km'' =
       (fs_empty(Join base_w ''km.json'' := File doc_k_hello),
        cross_sign @ '' km.json: Translation failed (request failed: no route to host), using English''
          @ [nl] @ check_sign @ '' km.json: hello'' @ [nl])"
proof -
  have h: "googleTranslate env_w ''hello'' ''km'' = Inl (Error ''request failed: no route to host'')"
    by (rule googleTranslate_env_w)
  have l: "loadJSON fs_empty (Join base_w ''km.json'') = []"
    by (simp add: loadJSON_absent fs_empty_def)
  have s: "saveJSON env_w fs_empty (Join base_w ''km.json'') [(''k'', ''hello'')]
             = (fs_empty(Join base_w ''km.json'' := File doc_k_hello), None)"
    by (simp add: saveJSON_def WriteFile_def write_node_def fs_empty_def env_w_def saveJSON_bytes_k_hello)
  from translation_failure_falls_back[OF h, of fs_empty "Join base_w ''km.json''" "''k''"] h
  show ?thesis by (simp add: l s Base_Join)
qed

text \<open>
  C9: for a response that the provider delivered (status 200, readable body) and that
  decodes to an array whose first element is a non-empty array, \<open>googleTranslate\<close>
  returns the fragments (the strings standing first in the nested arrays) concatenated
  in order, with surrounding white space trimmed; everything that is not such a
  fragment is ignored. For every other body (no JSON, no array, an empty array, a first
  element that is not a non-empty array) it returns an error value.
\<close>

theorem googleTranslate_extracts_fragments:
  assumes "Get env targetLang text = Inr resp" and "StatusCode resp = 200"
    and "Body resp = Inr body"
  shows "(json_parse env body = Some (JArray (JArray ts # rest)) \<and> ts \<noteq> [] \<longrightarrow>
            googleTranslate env text targetLang = Inr (TrimSpace (concat (fragments ts))))
       \<and> ((\<nexists>ts rest. json_parse env body = Some (JArray (JArray ts # rest)) \<and> ts \<noteq> []) \<longrightarrow>
            (\<exists>e. googleTranslate env text targetLang = Inl e))"
proof (intro conjI impI)
  assume "json_parse env body = Some (JArray (JArray ts # rest)) \<and> ts \<noteq> []"
  then show "googleTranslate env text targetLang = Inr (TrimSpace (concat (fragments ts)))"
    using assms by (simp add: googleTranslate_def Unmarshal_slice_def write_fragments_eq)
next
  assume no: "\<nexists>ts rest. json_parse env body = Some (JArray (JArray ts # rest)) \<and> ts \<noteq> []"
  show "\<exists>e. googleTranslate env text targetLang = Inl e"
  proof (cases "json_parse env body")
    case None
    then show ?thesis using assms by (simp add: googleTranslate_def Unmarshal_slice_def)
  next
    case (Some v)
    show ?thesis
    proof (cases v)
      case (JArray xs)
      show ?thesis
      proof (cases xs)
        case Nil
        with Some JArray show ?thesis using assms
          by (simp add: googleTranslate_def Unmarshal_slice_def)
      next
        case (Cons first rest')
        show ?thesis
        proof (cases first)
          case inner: (JArray ts')
          with no Some JArray Cons have "ts' = []" by auto
          with inner Some JArray Cons show ?thesis using assms
            by (simp add: googleTranslate_def Unmarshal_slice_def)
        qed (use Some JArray Cons assms in \<open>simp_all add: googleTranslate_def Unmarshal_slice_def\<close>)
      qed
    qed (use Some assms in \<open>simp_all add: googleTranslate_def Unmarshal_slice_def\<close>)
  qed
qed

theorem googleTranslate_extracts_fragments_witness:
  "googleTranslate (env_reply reply_value_text reply_value) ''hello'' ''km'' = Inr ''Sua sdei''
   \<and> (\<exists>e. googleTranslate (env_reply ''{}'' (JObject [])) ''hello'' ''km'' = Inl e)"
proof -
  have f: "fragments [JArray [JString '' Sua'', JString ''hello'', JNull, JNumber ''10''],
                     JArray [JNull, JString ''skipped''], JArray [], JNull,
                     JArray [JString '' sdei '', JString ''hello'']] = ['' Sua'', '' sdei '']"
    by (simp add: fragments_def)
  have a: "googleTranslate (env_reply reply_value_text reply_value) ''hello'' ''km'' = Inr ''Sua sdei''"
    using googleTranslate_extracts_fragments[of "env_reply reply_value_text reply_value" "''km''" "''hello''"
        "\<lparr> StatusCode = 200, Body = Inr reply_value_text \<rparr>" "reply_value_text"
        "[JArray [JString '' Sua'', JString ''hello'', JNull, JNumber ''10''],
                     JArray [JNull, JString ''skipped''], JArray [], JNull,
                     JArray [JString '' sdei '', JString ''hello'']]" "[JNull, JString ''en'']"]
    by (simp add: env_reply_def env_w_def reply_value_def f TrimSpace_Sua)
  have b: "\<exists>e. googleTranslate (env_reply ''{}'' (JObject [])) ''hello'' ''km'' = Inl e"
    using googleTranslate_extracts_fragments[of "env_reply ''{}'' (JObject [])" "''km''" "''hello''"
        "\<lparr> StatusCode = 200, Body = Inr ''{}'' \<rparr>" "''{}''"]
    by (simp add: env_reply_def env_w_def)
  from a b show ?thesis by simp
qed

text \<open>
  C10: a translation can succeed with the empty string. When the response decodes to
  an array whose first element is a non-empty array without any fragment,
  \<open>googleTranslate\<close> returns the empty string and no error, and Add or Update stores
  the empty string under the key for that language instead of the source text: the
  catalog it saves has the empty string at the key, and when the write is accepted the
  document of the language holds the serialisation of that catalog (as a file the
  program can read when it could read the document before, or created it readable).
\<close>

theorem empty_translation_is_stored:
  assumes "Get env langCode val = Inr resp" and "StatusCode resp = 200"
    and "Body resp = Inr body"
    and "json_parse env body = Some (JArray (JArray ts # rest))"
    and "ts \<noteq> []" and "\<forall>t\<in>set ts. \<not> is_fragment t"
  shows "googleTranslate env val langCode = Inr []
       \<and> processAddOrUpdate env fs path key val False langCode =
           (fst (saveJSON env fs path (AList.update key [] (loadJSON fs path))),
            check_sign @ '' '' @ Base path @ '': '' @ [nl])
       \<and> index (AList.update key [] (loadJSON fs path)) key = []
       \<and> (snd (saveJSON env fs path (AList.update key [] (loadJSON fs path))) = None \<longrightarrow>
            fst (processAddOrUpdate env fs path key val False langCode)
              = fs(path := write_node env (fs path)
                             (saveJSON_bytes (AList.update key [] (loadJSON fs path))))
            \<and> contents (fst (processAddOrUpdate env fs path key val False langCode) path)
                = Some (saveJSON_bytes (AList.update key [] (loadJSON fs path)))
            \<and> (reads_back env (fs path) \<longrightarrow>
                 fst (processAddOrUpdate env fs path key val False langCode)
                   = fs(path := File (saveJSON_bytes (AList.update key [] (loadJSON fs path))))))"
proof -
  have g: "googleTranslate env val langCode = Inr []"
    using assms
    by (simp add: googleTranslate_def Unmarshal_slice_def write_fragments_eq fragments_none TrimSpace_Nil)
  then show ?thesis
    by (simp add: processAddOrUpdate_def index_update saveJSON_written contents_write_node
        write_node_reads_back)
qed

theorem empty_translation_is_stored_witness:
  "googleTranslate (env_reply reply_no_text_text reply_no_text) ''hello'' ''km'' = Inr []
   \<and> processAddOrUpdate (env_reply reply_no_text_text reply_no_text) fs_empty (Join base_w ''km.json'') ''k'' ''hello'' False ''km''
       = (fs_empty(Join base_w ''km.json'' := File doc_k_empty),
          check_sign @ '' km.json: '' @ [nl])
   \<and> loadJSON (fs_empty(Join base_w ''km.json'' := File doc_k_empty)) (Join base_w ''km.json'')
       = [(''k'', [])]"
proof -
  have l: "loadJSON fs_empty (Join base_w ''km.json'') = []"
    by (simp add: loadJSON_absent fs_empty_def)
  have b: "saveJSON_bytes [(''k'', [])] = doc_k_empty"
    by (simp add: encode_simps doc_k_empty_def text_simps index_def)
  have s: "saveJSON (env_reply reply_no_text_text reply_no_text) fs_empty (Join base_w ''km.json'') [(''k'', [])]
             = (fs_empty(Join base_w ''km.json'' := File doc_k_empty), None)"
    by (simp add: saveJSON_def WriteFile_def write_node_def fs_empty_def env_reply_def env_w_def b)
  have c: "loadJSON (fs_empty(Join base_w ''km.json'' := File doc_k_empty)) (Join base_w ''km.json'')
             = [(''k'', [])]"
    by (simp add: loadJSON_def ReadFile_def doc_k_empty_def decode_simps text_simps utf8_simps)
  have h: "Get (env_reply reply_no_text_text reply_no_text) ''km'' ''hello''
             = Inr \<lparr> StatusCode = 200, Body = Inr reply_no_text_text \<rparr>"
    "json_parse (env_reply reply_no_text_text reply_no_text) reply_no_text_text
       = Some (JArray (JArray [JArray [JNull, JString ''hello''], JNumber ''1''] # []))"
    by (simp_all add: env_reply_def reply_no_text_def)
  from empty_translation_is_stored[OF h(1) _ _ h(2), of fs_empty "Join base_w ''km.json''" "''k''"]
  show ?thesis by (simp add: l s c Base_Join)
qed

section \<open>A refused write\<close>

text \<open>
  C2 says that a failure to persist one language's catalog is reported for that
  language. \<open>saveJSON\<close> returns the error, but its callers drop it. In
  \<open>env_km_readonly\<close> the write to \<^verbatim>\<open>km.json\<close> is refused: the catalogs of the other two
  languages are written, \<^verbatim>\<open>km.json\<close> stays absent, and the output carries the same
  success line for \<^verbatim>\<open>km.json\<close> as for the others.
\<close>

theorem refused_write_reported_as_success:
  "snd (saveJSON env_km_readonly fs_empty (Join base_w ''km.json'') [(''k'', ''sua'')])
     = Some (Error ''permission denied'')
   \<and> runAdd env_km_readonly languages fs_empty ''k'' ''hello'' =
       (fs_empty(Join base_w ''en.json'' := File doc_k_hello,
                 Join base_w ''zh.json'' := File doc_k_sua),
        folder_sign @ '' Using base path: '' @ base_w @ [nl] @ [nl]
          @ check_sign @ '' en.json: hello'' @ [nl]
          @ check_sign @ '' km.json: sua'' @ [nl]
          @ check_sign @ '' zh.json: sua'' @ [nl]
          @ [nl] @ sparkles_sign @ '' i18n key added to all languages!'' @ [nl])"
proof -
  have i: "initBasePath env_km_readonly
             = (Inr base_w, folder_sign @ '' Using base path: '' @ base_w @ [nl])"
    by (simp add: initBasePath_def env_km_readonly_def env_reply_def env_w_def path_simps)
  have w: "WriteFile_error env_km_readonly
             = (\<lambda>p. if p = Join base_w ''km.json'' then Some (Error ''permission denied'') else None)"
    by (simp add: env_km_readonly_def)
  have m: "MkdirAll env_km_readonly = (\<lambda>_. None)" "WriteFile_partial env_km_readonly = (\<lambda>_. None)"
    by (simp_all add: env_km_readonly_def env_reply_def env_w_def)
  have c: "write_node env_km_readonly Absent b = File b" for b
    by (simp add: write_node_def env_km_readonly_def env_reply_def env_w_def)
  have en: "processAddOrUpdate env_km_readonly fs_empty (Join base_w ''en.json'') ''k'' ''hello'' True ''en''
              = (fs_empty(Join base_w ''en.json'' := File doc_k_hello),
                 check_sign @ '' en.json: hello'' @ [nl])"
    by (simp add: processAddOrUpdate_def loadJSON_absent fs_empty_def saveJSON_def WriteFile_def
        w m c Join_inject saveJSON_bytes_k_hello Base_Join)
  have km: "processAddOrUpdate env_km_readonly (fs_empty(Join base_w ''en.json'' := File doc_k_hello))
              (Join base_w ''km.json'') ''k'' ''hello'' False ''km''
              = (fs_empty(Join base_w ''en.json'' := File doc_k_hello),
                 check_sign @ '' km.json: sua'' @ [nl])"
    by (simp add: processAddOrUpdate_def loadJSON_absent fs_empty_def saveJSON_def WriteFile_def
        w m c Join_inject googleTranslate_env_km_readonly Base_Join)
  have zh: "processAddOrUpdate env_km_readonly (fs_empty(Join base_w ''en.json'' := File doc_k_hello))
              (Join base_w ''zh.json'') ''k'' ''hello'' False ''zh-CN''
              = (fs_empty(Join base_w ''en.json'' := File doc_k_hello,
                          Join base_w ''zh.json'' := File doc_k_sua),
                 check_sign @ '' zh.json: sua'' @ [nl])"
    by (simp add: processAddOrUpdate_def loadJSON_absent fs_empty_def saveJSON_def WriteFile_def
        w m c Join_inject googleTranslate_env_km_readonly saveJSON_bytes_k_sua Base_Join)
  have e: "\<not> exists (loadJSON fs_empty (Join base_w ''en.json'')) ''k''"
    by (simp add: loadJSON_absent fs_empty_def exists_def)
  have s: "snd (saveJSON env_km_readonly fs_empty (Join base_w ''km.json'') [(''k'', ''sua'')])
             = Some (Error ''permission denied'')"
    by (simp add: saveJSON_def WriteFile_def w m)
  have r: "runAdd env_km_readonly languages fs_empty ''k'' ''hello'' =
       (fs_empty(Join base_w ''en.json'' := File doc_k_hello,
                 Join base_w ''zh.json'' := File doc_k_sua),
        folder_sign @ '' Using base path: '' @ base_w @ [nl] @ [nl]
          @ check_sign @ '' en.json: hello'' @ [nl]
          @ check_sign @ '' km.json: sua'' @ [nl]
          @ check_sign @ '' zh.json: sua'' @ [nl]
          @ [nl] @ sparkles_sign @ '' i18n key added to all languages!'' @ [nl])"
    by (simp add: runAdd_def i e languages_def en km zh)
  from s r show ?thesis by simp
qed

section \<open>Saving and loading a catalog\<close>

lemma loadJSON_catalog_of: "loadJSON fs path = catalog_of (fs path)"
  by (simp add: loadJSON_def ReadFile_def catalog_of_def split: fnode.splits)

lemma catalog_of_saved:
  assumes "distinct (map fst m)"
  shows "catalog_of (File (saveJSON_bytes m)) = store_all [] (map entry_coerce (sorted_entries m))"
  by (simp add: catalog_of_def saveJSON_bytes_MarshalIndent[OF assms] Unmarshal_MarshalIndent)

lemma keys_of_catalog_of_saved:
  assumes "distinct (map fst m)"
  shows "keys_of (catalog_of (File (saveJSON_bytes m))) = coerce_utf8 ` keys_of m"
proof -
  have "map fst (map entry_coerce (sorted_entries m)) = map coerce_utf8 (map fst (sorted_entries m))"
    by (simp add: fst_entry_coerce comp_def)
  then have "fst ` set (map entry_coerce (sorted_entries m)) = coerce_utf8 ` set (map fst (sorted_entries m))"
    by (metis list.set_map)
  then show ?thesis
    by (simp add: catalog_of_saved[OF assms] keys_of_store_all keys_sorted_entries)
       (simp add: keys_of_def)
qed

lemma entry_coerce_valid:
  "ValidString (fst kv) \<Longrightarrow> ValidString (snd kv) \<Longrightarrow> entry_coerce kv = kv"
  by (simp add: entry_coerce_def coerce_utf8_valid)

lemma sorted_entries_subset:
  assumes "distinct (map fst m)"
  shows "set (sorted_entries m) = set m"
proof -
  have "set (sorted_entries m) = (\<lambda>k. (k, index m k)) ` fst ` set m"
    by (simp add: sorted_entries_def)
  also have "\<dots> = set m"
  proof (intro set_eqI iffI)
    fix kv assume "kv \<in> (\<lambda>k. (k, index m k)) ` fst ` set m"
    then obtain k v where kv: "kv = (k, index m k)" and "(k, v) \<in> set m" by auto
    then have "map_of m k = Some v" using assms by simp
    then show "kv \<in> set m" using kv \<open>(k, v) \<in> set m\<close> by (simp add: index_def)
  next
    fix kv assume a: "kv \<in> set m"
    then have "map_of m (fst kv) = Some (snd kv)" using assms by simp
    then have "kv = (fst kv, index m (fst kv))" by (simp add: index_def)
    with a show "kv \<in> (\<lambda>k. (k, index m k)) ` fst ` set m" by (metis (mono_tags) image_eqI)
  qed
  finally show ?thesis .
qed

lemma list_all_True: "list_all (\<lambda>x. True) xs"
  by (induction xs) simp_all

lemma EncodeRune_RuneError: "EncodeRune RuneError = [CHR 0xEF, CHR 0xBF, CHR 0xBD]"
  by (simp add: EncodeRune_def RuneError_def char_of_def bit_Suc_0_iff)

lemma save_ok_env_w: "save_ok env_w path"
  by (simp add: save_ok_def env_w_def)

text \<open>
  C7: saving is deterministic and canonical. Two catalogs that are equal as mappings
  (whatever the order in which \<^verbatim>\<open>range\<close> visits them) give the same bytes and the
  same result of \<open>saveJSON\<close>. The bytes are the canonical document of the entries in
  ascending key order, one member per line, indented by two spaces; when the write is
  accepted, these are the bytes the document at the path holds afterwards, nothing
  else in the store changes, and the document is a file the program can read when it
  could read it before, or created it readable. The write is accepted exactly when the
  operating system accepts the directory and the file.
\<close>

theorem save_deterministic_canonical:
  assumes "distinct (map fst m1)" and "distinct (map fst m2)" and "map_of m1 = map_of m2"
  shows "saveJSON env fs path m1 = saveJSON env fs path m2
       \<and> saveJSON_bytes m1 = saveJSON_bytes m2
       \<and> saveJSON_bytes m1 = canonical_document (sorted_entries m1)
       \<and> (snd (saveJSON env fs path m1) = None) = save_ok env path
       \<and> (snd (saveJSON env fs path m1) = None \<longrightarrow>
            fst (saveJSON env fs path m1)
              = fs(path := write_node env (fs path) (canonical_document (sorted_entries m1)))
            \<and> contents (fst (saveJSON env fs path m1) path)
                = Some (canonical_document (sorted_entries m1))
            \<and> (reads_back env (fs path) \<longrightarrow>
                 fst (saveJSON env fs path m1)
                   = fs(path := File (canonical_document (sorted_entries m1)))))
       \<and> sorted (map fst (sorted_entries m1))
       \<and> distinct (map fst (sorted_entries m1))
       \<and> map_of (sorted_entries m1) = map_of m1"
proof -
  have b: "saveJSON_bytes m1 = saveJSON_bytes m2"
    using sorted_entries_cong[OF assms]
    by (simp add: saveJSON_bytes_MarshalIndent assms(1,2) MarshalIndent_canonical)
  then have e: "saveJSON env fs path m1 = saveJSON env fs path m2" by (simp add: saveJSON_def)
  have c: "saveJSON_bytes m1 = canonical_document (sorted_entries m1)"
    by (simp add: saveJSON_bytes_MarshalIndent assms(1) MarshalIndent_canonical)
  have o: "(snd (saveJSON env fs path m1) = None) = save_ok env path"
    by (auto simp: saveJSON_def WriteFile_def save_ok_def Let_def split: option.splits)
  have w: "fst (saveJSON env fs path m1)
             = fs(path := write_node env (fs path) (canonical_document (sorted_entries m1)))"
    if "snd (saveJSON env fs path m1) = None"
    using saveJSON_written[OF that] by (simp add: c)
  have k: "sorted (map fst (sorted_entries m1))" "distinct (map fst (sorted_entries m1))"
    "map_of (sorted_entries m1) = map_of m1"
    using assms(1) by (simp_all add: keys_sorted_entries map_of_sorted_entries)
  from e b c o w k show ?thesis by (simp add: contents_write_node write_node_reads_back)
qed

theorem save_deterministic_canonical_witness:
  "distinct (map fst [(''b'', ''2''), (''a'', ''1'')]) \<and> distinct (map fst [(''a'', ''1''), (''b'', ''2'')])
   \<and> map_of [(''b'', ''2''), (''a'', ''1'')] = map_of [(''a'', ''1''), (''b'', ''2'')]
   \<and> saveJSON_bytes [(''b'', ''2''), (''a'', ''1'')] = doc_a1_b2
   \<and> saveJSON_bytes [(''a'', ''1''), (''b'', ''2'')] = doc_a1_b2
   \<and> saveJSON env_w fs_empty (Join base_w ''en.json'') [(''b'', ''2''), (''a'', ''1'')]
       = (fs_empty(Join base_w ''en.json'' := File doc_a1_b2), None)
   \<and> saveJSON env_w fs_empty (Join base_w ''en.json'') [(''a'', ''1''), (''b'', ''2'')]
       = (fs_empty(Join base_w ''en.json'' := File doc_a1_b2), None)"
proof -
  have m: "map_of [(''b'', ''2''), (''a'', ''1'')] = map_of [(''a'', ''1''), (''b'', ''2'')]"
    by (auto simp: fun_eq_iff)
  have d1: "distinct (map fst [(''b'', ''2''), (''a'', ''1'')])" by simp
  have d2: "distinct (map fst [(''a'', ''1''), (''b'', ''2'')])" by simp
  have b: "saveJSON_bytes [(''a'', ''1''), (''b'', ''2'')] = doc_a1_b2"
    by (simp add: encode_simps doc_a1_b2_def text_simps)
  have s: "snd (saveJSON env_w fs_empty (Join base_w ''en.json'') [(''b'', ''2''), (''a'', ''1'')]) = None"
    by (simp add: saveJSON_def WriteFile_def env_w_def)
  have r: "reads_back env_w (fs_empty (Join base_w ''en.json''))"
    by (simp add: reads_back_def fs_empty_def env_w_def)
  note t = save_deterministic_canonical[OF d1 d2 m, of env_w fs_empty "Join base_w ''en.json''"]
  from t have e: "saveJSON env_w fs_empty (Join base_w ''en.json'') [(''b'', ''2''), (''a'', ''1'')]
                    = saveJSON env_w fs_empty (Join base_w ''en.json'') [(''a'', ''1''), (''b'', ''2'')]"
    and bb: "saveJSON_bytes [(''b'', ''2''), (''a'', ''1'')] = saveJSON_bytes [(''a'', ''1''), (''b'', ''2'')]"
    and cc: "saveJSON_bytes [(''b'', ''2''), (''a'', ''1'')]
               = canonical_document (sorted_entries [(''b'', ''2''), (''a'', ''1'')])"
    by blast+
  from t s r have "fst (saveJSON env_w fs_empty (Join base_w ''en.json'') [(''b'', ''2''), (''a'', ''1'')])
           = fs_empty(Join base_w ''en.json'' := File (canonical_document (sorted_entries [(''b'', ''2''), (''a'', ''1'')])))"
    by blast
  then have f: "fst (saveJSON env_w fs_empty (Join base_w ''en.json'') [(''b'', ''2''), (''a'', ''1'')])
           = fs_empty(Join base_w ''en.json'' := File doc_a1_b2)"
    by (simp only: cc[symmetric] bb b)
  from f s have "saveJSON env_w fs_empty (Join base_w ''en.json'') [(''b'', ''2''), (''a'', ''1'')]
                   = (fs_empty(Join base_w ''en.json'' := File doc_a1_b2), None)"
    by (simp add: prod_eq_iff)
  with e[symmetric] d1 d2 m b bb show ?thesis by simp
qed

text \<open>
  C6, as the spec has it, for every mapping: it fails for a string that is not valid
  UTF-8, which the command line can deliver. The value consisting of the byte 0xFF is
  written as the escape of U+FFFD, and comes back as the three bytes of U+FFFD. It
  fails as well where the document is a file that the program can write and not read:
  the save returns \<^verbatim>\<open>nil\<close>, the bytes are in the file, and the load returns the empty
  catalog.
\<close>

theorem save_load_bad_byte_counterexample:
  "distinct (map fst m_bad_byte)
   \<and> snd (saveJSON env_w fs_empty (Join base_w ''en.json'') m_bad_byte) = None
   \<and> loadJSON (fst (saveJSON env_w fs_empty (Join base_w ''en.json'') m_bad_byte))
        (Join base_w ''en.json'') = [(''k'', [CHR 0xEF, CHR 0xBF, CHR 0xBD])]
   \<and> map_of (loadJSON (fst (saveJSON env_w fs_empty (Join base_w ''en.json'') m_bad_byte))
               (Join base_w ''en.json'')) \<noteq> map_of m_bad_byte
   \<and> saveJSON env_w fs_write_only (Join base_w ''km.json'') [(''k'', ''hello'')]
       = (fs_write_only(Join base_w ''km.json'' := Unreadable doc_k_hello), None)
   \<and> loadJSON (fst (saveJSON env_w fs_write_only (Join base_w ''km.json'') [(''k'', ''hello'')]))
        (Join base_w ''km.json'') = []
   \<and> map_of (loadJSON (fst (saveJSON env_w fs_write_only (Join base_w ''km.json'') [(''k'', ''hello'')]))
               (Join base_w ''km.json'')) \<noteq> map_of [(''k'', ''hello'')]"
proof -
  have d: "distinct (map fst m_bad_byte)" by (simp add: m_bad_byte_def)
  have s: "saveJSON env_w fs_empty (Join base_w ''en.json'') m_bad_byte
             = (fs_empty(Join base_w ''en.json'' := File (saveJSON_bytes m_bad_byte)), None)"
    by (simp add: saveJSON_def WriteFile_def write_node_def fs_empty_def env_w_def)
  have c: "catalog_of (File (saveJSON_bytes m_bad_byte)) = [(''k'', [CHR 0xEF, CHR 0xBF, CHR 0xBD])]"
    unfolding catalog_of_saved[OF d]
    by (simp add: m_bad_byte_def sorted_entries_def index_def entry_coerce_def store_all_def
        DecodeRune.simps lead_size_def EncodeRune_RuneError)
  have l: "loadJSON (fst (saveJSON env_w fs_empty (Join base_w ''en.json'') m_bad_byte))
        (Join base_w ''en.json'') = [(''k'', [CHR 0xEF, CHR 0xBF, CHR 0xBD])]"
    by (simp add: s loadJSON_catalog_of c)
  have "map_of [(''k'', [CHR 0xEF, CHR 0xBF, CHR 0xBD])] ''k'' \<noteq> map_of m_bad_byte ''k''"
    by (simp add: m_bad_byte_def)
  then have n: "map_of [(''k'', [CHR 0xEF, CHR 0xBF, CHR 0xBD])] \<noteq> map_of m_bad_byte" by metis
  have s': "saveJSON env_w fs_write_only (Join base_w ''km.json'') [(''k'', ''hello'')]
       = (fs_write_only(Join base_w ''km.json'' := Unreadable doc_k_hello), None)"
    by (simp add: saveJSON_def WriteFile_def write_node_def fs_write_only_def env_w_def
        saveJSON_bytes_k_hello)
  have l': "loadJSON (fst (saveJSON env_w fs_write_only (Join base_w ''km.json'') [(''k'', ''hello'')]))
        (Join base_w ''km.json'') = []"
    by (simp add: s' loadJSON_def ReadFile_def)
  have "map_of ([] :: catalog) ''k'' \<noteq> map_of [(''k'', ''hello'')] ''k''" by simp
  then have n': "map_of ([] :: catalog) \<noteq> map_of [(''k'', ''hello'')]" by metis
  from d s l n s' l' n' show ?thesis by simp
qed

text \<open>
  C6, amended: for every flat mapping from strings to strings whose keys and values are
  valid UTF-8, when the write is accepted and the document can be read back (it was a
  file the program can read, or there was none and the program creates readable
  files), loading after saving returns a catalog equal to the original as a mapping
  (same keys, same values).
\<close>

theorem save_load_round_trip:
  assumes "distinct (map fst m)"
    and "list_all (\<lambda>kv. ValidString (fst kv) \<and> ValidString (snd kv)) m"
    and "snd (saveJSON env fs path m) = None"
    and "reads_back env (fs path)"
  shows "map_of (loadJSON (fst (saveJSON env fs path m)) path) = map_of m"
proof -
  have d: "distinct (map fst (sorted_entries m))" using assms(1) by (simp add: keys_sorted_entries)
  have "map entry_coerce (sorted_entries m) = sorted_entries m"
  proof (rule map_idI)
    fix kv assume "kv \<in> set (sorted_entries m)"
    then have "kv \<in> set m" by (simp add: sorted_entries_subset[OF assms(1)])
    with assms(2) show "entry_coerce kv = kv" by (simp add: list_all_iff entry_coerce_valid)
  qed
  then have "catalog_of (File (saveJSON_bytes m)) = sorted_entries m"
    using store_all_fresh[OF d, of "[]"] by (simp add: catalog_of_saved[OF assms(1)])
  then show ?thesis
    by (simp add: saveJSON_written[OF assms(3)] write_node_reads_back[OF assms(4)]
        loadJSON_catalog_of map_of_sorted_entries)
qed

theorem save_load_round_trip_witness:
  "distinct (map fst m_accent)
   \<and> list_all (\<lambda>kv. ValidString (fst kv) \<and> ValidString (snd kv)) m_accent
   \<and> snd (saveJSON env_w fs_empty (Join base_w ''en.json'') m_accent) = None
   \<and> reads_back env_w (fs_empty (Join base_w ''en.json''))
   \<and> map_of (loadJSON (fst (saveJSON env_w fs_empty (Join base_w ''en.json'') m_accent))
               (Join base_w ''en.json'')) = map_of m_accent"
proof -
  have d: "distinct (map fst m_accent)" by (simp add: m_accent_def)
  have v: "list_all (\<lambda>kv. ValidString (fst kv) \<and> ValidString (snd kv)) m_accent"
    by (simp add: m_accent_def utf8_simps)
  have s: "snd (saveJSON env_w fs_empty (Join base_w ''en.json'') m_accent) = None"
    by (simp add: saveJSON_def WriteFile_def env_w_def)
  have r: "reads_back env_w (fs_empty (Join base_w ''en.json''))"
    by (simp add: reads_back_def fs_empty_def env_w_def)
  from save_load_round_trip[OF d v s r] d v s r show ?thesis by simp
qed

section \<open>Key parity across the catalogs\<close>

lemma fst_for_range_Cons:
  "fst (for_range body (x # xs) fs) = fst (for_range body xs (fst (body x fs)))"
  by (simp split: prod.splits)

lemma for_range_outside:
  assumes "\<And>x fs. x \<in> set xs \<Longrightarrow> fst (body x fs) = fs(p x := g x (fs (p x)))"
    and "q \<notin> p ` set xs"
  shows "fst (for_range body xs fs) q = fs q"
  using assms
proof (induction xs arbitrary: fs)
  case Nil
  then show ?case by simp
next
  case (Cons y ys)
  have "fst (for_range body (y # ys) fs) q = fst (for_range body ys (fst (body y fs))) q"
    by (simp only: fst_for_range_Cons)
  also have "\<dots> = fst (body y fs) q"
    using Cons.prems by (intro Cons.IH) auto
  also have "\<dots> = fs q" using Cons.prems by auto
  finally show ?case .
qed

lemma for_range_local:
  assumes "\<And>x fs. x \<in> set xs \<Longrightarrow> fst (body x fs) = fs(p x := g x (fs (p x)))"
    and "distinct (map p xs)" and "x \<in> set xs"
  shows "fst (for_range body xs fs) (p x) = g x (fs (p x))"
  using assms
proof (induction xs arbitrary: fs)
  case Nil
  then show ?case by simp
next
  case (Cons y ys)
  have loc: "\<And>x fs. x \<in> set ys \<Longrightarrow> fst (body x fs) = fs(p x := g x (fs (p x)))"
    by (rule Cons.prems(1)) simp
  have step: "fst (for_range body (y # ys) fs) (p x) = fst (for_range body ys (fst (body y fs))) (p x)"
    by (simp only: fst_for_range_Cons)
  have y: "fst (body y fs) = fs(p y := g y (fs (p y)))" by (rule Cons.prems(1)) simp
  show ?case
  proof (cases "x = y")
    case True
    from Cons.prems(2) have out: "p y \<notin> p ` set ys" by simp
    have "fst (for_range body (y # ys) fs) (p y) = fst (for_range body ys (fst (body y fs))) (p y)"
      by (simp only: fst_for_range_Cons)
    also have "\<dots> = fst (body y fs) (p y)"
      by (rule for_range_outside[of ys body p g, OF loc out])
    also have "\<dots> = g y (fs (p y))" unfolding y by simp
    finally show ?thesis using True by simp
  next
    case False
    with Cons.prems(3) have x: "x \<in> set ys" by simp
    then have "p x \<in> p ` set ys" by (rule imageI)
    moreover from Cons.prems(2) have "p y \<notin> p ` set ys" by simp
    ultimately have ne: "p x \<noteq> p y" by auto
    from Cons.prems(2) have d: "distinct (map p ys)" by simp
    note step
    also have "fst (for_range body ys (fst (body y fs))) (p x) = g x (fst (body y fs) (p x))"
      by (rule Cons.IH[OF loc d x])
    also have "fst (body y fs) (p x) = fs (p x)" unfolding y using ne by simp
    finally show ?thesis .
  qed
qed

lemma distinct_members:
  "members ts m = Some m' \<Longrightarrow> distinct (map fst m) \<Longrightarrow> distinct (map fst m')"
proof (induction ts m rule: members.induct)
  case (1 k v ts m)
  then show ?case
    by (auto simp: distinct_update split: option.splits list.splits token.splits)
qed simp_all

lemma distinct_catalog_of: "distinct (map fst (catalog_of n))"
proof -
  have "distinct (map fst m)" if "decode_tokens ts = Inr (Some m)" for ts m
    using that distinct_members[of _ "[]" m]
    by (cases ts rule: decode_tokens.cases) (auto split: option.splits)
  then show ?thesis
    by (auto simp: catalog_of_def Unmarshal_def split: fnode.splits sum.splits option.splits)
qed

lemma fst_saveJSON_node:
  "fst (saveJSON env fs path m) = fs(path := saved_node env path (fs path) (saveJSON_bytes m))"
  by (simp add: saveJSON_def WriteFile_def saved_node_def Let_def split: option.splits)

lemma saved_node_ok: "save_ok env path \<Longrightarrow> saved_node env path node b = write_node env node b"
  by (simp add: save_ok_def saved_node_def)

lemma saved_node_readable:
  "Created_readable env \<Longrightarrow> \<not> unreadable node \<Longrightarrow> \<not> unreadable (saved_node env path node b)"
  by (cases node) (simp_all add: saved_node_def write_node_def split: option.splits)

lemma fst_processAddOrUpdate_any:
  "fst (processAddOrUpdate env fs path key val isEnglish langCode)
     = fs(path := saved_node env path (fs path)
                    (saveJSON_bytes (AList.update key (stored_value env val isEnglish langCode)
                                       (catalog_of (fs path)))))"
  by (simp add: processAddOrUpdate_def fst_saveJSON_node stored_value_def loadJSON_catalog_of
      split: sum.splits)

lemma keys_after_store:
  "keys_of (catalog_of (File (saveJSON_bytes (AList.update key v (catalog_of n)))))
     = coerce_utf8 ` insert key (keys_of (catalog_of n))"
  by (simp add: keys_of_catalog_of_saved distinct_update distinct_catalog_of keys_update)

lemma keys_of_delete: "keys_of (AList.delete k m) = keys_of m - {k}"
  by (simp add: keys_of_def delete_keys)

lemma keys_after_delete:
  "keys_of (catalog_of (File (saveJSON_bytes (AList.delete key (catalog_of n)))))
     = coerce_utf8 ` (keys_of (catalog_of n) - {key})"
  by (simp add: keys_of_catalog_of_saved distinct_delete distinct_catalog_of keys_of_delete)

lemma exists_keys_of: "exists m k \<longleftrightarrow> k \<in> keys_of m"
  by (simp add: exists_def keys_of_def map_of_eq_None_iff)

lemma range_order_languages:
  assumes "range_order languages order"
  shows "distinct (map (\<lambda>entry. Join basePath (fst entry)) order)"
    and "fst ` set order = set (map fst languages)"
proof -
  from assms have d: "distinct (map fst order)" and s: "set order = set languages"
    by (simp_all add: range_order_def)
  have "inj_on (Join basePath) (set (map fst order))"
    by (rule inj_onI) (simp add: Join_inject)
  with d have "distinct (map (Join basePath) (map fst order))"
    unfolding distinct_map[of "Join basePath" "map fst order"] by blast
  then show "distinct (map (\<lambda>entry. Join basePath (fst entry)) order)" by (simp add: comp_def)
  from s show "fst ` set order = set (map fst languages)" by simp
qed

lemma init_ok: "fst (initBasePath env) = Inr basePath \<Longrightarrow> \<exists>out. initBasePath env = (Inr basePath, out)"
  by (cases "initBasePath env") simp

lemma en_in_languages: "''en.json'' \<in> set (map fst languages)"
  by (simp add: languages_def)

lemma languages_members:
  "(''en.json'', ''en'') \<in> set languages" "(''km.json'', ''km'') \<in> set languages"
  "(''zh.json'', ''zh-CN'') \<in> set languages"
  by (simp_all add: languages_def)

lemma range_order_refl: "range_order languages languages"
  by (simp add: range_order_def languages_def)

lemma range_order_rev: "range_order languages (rev languages)"
  by (auto simp: range_order_def languages_def)

lemma for_range_add_node:
  assumes r: "range_order languages order" and f: "(file, langCode) \<in> set languages"
  shows "fst (for_range
            (\<lambda>(file, langCode) fs.
               processAddOrUpdate env fs (Join basePath file) key val (file = ''en.json'') langCode)
            order fs) (Join basePath file)
           = saved_node env (Join basePath file) (fs (Join basePath file))
               (saveJSON_bytes
                  (AList.update key (stored_value env val (file = ''en.json'') langCode)
                     (loadJSON fs (Join basePath file))))"
proof -
  let ?body = "\<lambda>(file, langCode) fs.
               processAddOrUpdate env fs (Join basePath file) key val (file = ''en.json'') langCode"
  let ?p = "\<lambda>entry :: string \<times> string. Join basePath (fst entry)"
  let ?g = "\<lambda>(entry :: string \<times> string) node.
              saved_node env (Join basePath (fst entry)) node (saveJSON_bytes
                (AList.update key (stored_value env val (fst entry = ''en.json'') (snd entry))
                   (catalog_of node)))"
  have loc: "fst (?body x fs') = fs'(?p x := ?g x (fs' (?p x)))" if "x \<in> set order" for x fs'
    by (cases x) (simp add: fst_processAddOrUpdate_any)
  from r f have x: "(file, langCode) \<in> set order" by (simp add: range_order_def)
  from for_range_local[of order ?body ?p ?g "(file, langCode)" fs, OF loc range_order_languages(1)[OF r] x]
  show ?thesis by (simp add: loadJSON_catalog_of)
qed

lemma for_range_remove_node:
  assumes r: "range_order languages order" and f: "(file, langCode) \<in> set languages"
  shows "fst (for_range (remove_in env basePath key) order fs) (Join basePath file)
           = (if exists (loadJSON fs (Join basePath file)) key
              then saved_node env (Join basePath file) (fs (Join basePath file))
                     (saveJSON_bytes (AList.delete key (loadJSON fs (Join basePath file))))
              else fs (Join basePath file))"
proof -
  let ?p = "\<lambda>entry :: string \<times> string. Join basePath (fst entry)"
  let ?g = "\<lambda>(entry :: string \<times> string) node.
              if exists (catalog_of node) key
              then saved_node env (Join basePath (fst entry)) node
                     (saveJSON_bytes (AList.delete key (catalog_of node)))
              else node"
  have loc: "fst (remove_in env basePath key x fs') = fs'(?p x := ?g x (fs' (?p x)))"
    if "x \<in> set order" for x fs'
    by (simp add: remove_in_def loadJSON_catalog_of Let_def fst_saveJSON_node)
  from r f have x: "(file, langCode) \<in> set order" by (simp add: range_order_def)
  from for_range_local[of order "remove_in env basePath key" ?p ?g "(file, langCode)" fs,
      OF loc range_order_languages(1)[OF r] x]
  show ?thesis by (simp add: loadJSON_catalog_of)
qed

lemma keys_after_add_or_update:
  assumes r: "range_order languages order"
    and ok: "save_ok env (Join basePath file)"
    and f: "file \<in> set (map fst languages)"
    and rb: "reads_back env (fs (Join basePath file))"
  shows "keys_of (loadJSON (fst (for_range
            (\<lambda>(file, langCode) fs.
               processAddOrUpdate env fs (Join basePath file) key val (file = ''en.json'') langCode)
            order fs)) (Join basePath file))
         = coerce_utf8 ` insert key (keys_of (loadJSON fs (Join basePath file)))"
proof -
  from f obtain langCode where l: "(file, langCode) \<in> set languages" by auto
  show ?thesis
    by (simp add: loadJSON_catalog_of for_range_add_node[OF r l] saved_node_ok[OF ok]
        write_node_reads_back[OF rb] keys_after_store)
qed

lemma keys_after_remove:
  assumes r: "range_order languages order"
    and ok: "save_ok env (Join basePath file)"
    and f: "file \<in> set (map fst languages)"
    and e: "exists (loadJSON fs (Join basePath file)) key"
    and rb: "reads_back env (fs (Join basePath file))"
  shows "keys_of (loadJSON (fst (for_range (remove_in env basePath key) order fs)) (Join basePath file))
         = coerce_utf8 ` (keys_of (loadJSON fs (Join basePath file)) - {key})"
proof -
  from f obtain langCode where l: "(file, langCode) \<in> set languages" by auto
  from e have e': "exists (catalog_of (fs (Join basePath file))) key"
    by (simp add: loadJSON_catalog_of)
  show ?thesis
    by (simp add: loadJSON_catalog_of for_range_remove_node[OF r l] saved_node_ok[OF ok] e'
        write_node_reads_back[OF rb] keys_after_delete)
qed

lemma parity_iff:
  "parity basePath fs \<longleftrightarrow>
     (\<forall>file\<in>set (map fst languages).
        keys_of (loadJSON fs (Join basePath file)) = keys_of (loadJSON fs (Join basePath ''en.json'')))"
  by (simp add: parity_def list_all_iff)

lemma reads_back_iff: "Created_readable env \<Longrightarrow> reads_back env node \<longleftrightarrow> \<not> unreadable node"
  by (cases node) (simp_all add: reads_back_def)

lemma step_parity:
  assumes p: "parity basePath fs" and i: "fst (initBasePath env) = Inr basePath"
    and r: "range_order languages order" and s: "succeeds env basePath fs c"
    and c: "Created_readable env"
    and n: "list_all (\<lambda>file. \<not> unreadable (fs (Join basePath file))) (map fst languages)"
  shows "parity basePath (fst (run_command env order fs c))"
proof -
  from init_ok[OF i] obtain out where io: "initBasePath env = (Inr basePath, out)" ..
  note en = en_in_languages
  have rb: "reads_back env (fs (Join basePath f))" if "f \<in> set (map fst languages)" for f
    using n that by (auto simp: reads_back_iff[OF c] list_all_iff)
  show ?thesis
  proof (cases c)
    case (CmdAdd key val)
    with s have ne: "\<not> exists (loadJSON fs (Join basePath ''en.json'')) key"
      and ok: "list_all (\<lambda>file. save_ok env (Join basePath file)) (map fst languages)" by simp_all
    have run: "fst (run_command env order fs c) = fst (for_range
            (\<lambda>(file, langCode) fs.
               processAddOrUpdate env fs (Join basePath file) key val (file = ''en.json'') langCode)
            order fs)"
      using ne by (simp add: CmdAdd runAdd_def io split: prod.splits)
    have k: "keys_of (loadJSON (fst (run_command env order fs c)) (Join basePath f))
               = coerce_utf8 ` insert key (keys_of (loadJSON fs (Join basePath f)))"
      if "f \<in> set (map fst languages)" for f
      unfolding run using ok that
      by (intro keys_after_add_or_update[where fs=fs, OF r _ that rb[OF that]]) (auto simp: list_all_iff)
    from p k[OF en] k show ?thesis by (simp add: parity_iff)
  next
    case CmdList
    then show ?thesis using p by simp
  next
    case (CmdUpdate key val)
    with s have ne: "exists (loadJSON fs (Join basePath ''en.json'')) key"
      and ok: "list_all (\<lambda>file. save_ok env (Join basePath file)) (map fst languages)" by simp_all
    have run: "fst (run_command env order fs c) = fst (for_range
            (\<lambda>(file, langCode) fs.
               processAddOrUpdate env fs (Join basePath file) key val (file = ''en.json'') langCode)
            order fs)"
      using ne by (simp add: CmdUpdate runUpdate_def io split: prod.splits)
    have k: "keys_of (loadJSON (fst (run_command env order fs c)) (Join basePath f))
               = coerce_utf8 ` insert key (keys_of (loadJSON fs (Join basePath f)))"
      if "f \<in> set (map fst languages)" for f
      unfolding run using ok that
      by (intro keys_after_add_or_update[where fs=fs, OF r _ that rb[OF that]]) (auto simp: list_all_iff)
    from p k[OF en] k show ?thesis by (simp add: parity_iff)
  next
    case (CmdRemove key)
    with s have e: "exists (loadJSON fs (Join basePath ''en.json'')) key"
      and ok: "list_all (\<lambda>file. exists (loadJSON fs (Join basePath file)) key \<longrightarrow> save_ok env (Join basePath file))
               (map fst languages)" by simp_all
    have all: "exists (loadJSON fs (Join basePath f)) key" if "f \<in> set (map fst languages)" for f
      using p e that by (auto simp: parity_iff exists_keys_of)
    have run: "fst (run_command env order fs c) = fst (for_range (remove_in env basePath key) order fs)"
      using e by (simp add: CmdRemove runRemove_def io split: prod.splits)
    have k: "keys_of (loadJSON (fst (run_command env order fs c)) (Join basePath f))
               = coerce_utf8 ` (keys_of (loadJSON fs (Join basePath f)) - {key})"
      if "f \<in> set (map fst languages)" for f
      unfolding run using ok that all[OF that]
      by (intro keys_after_remove[where fs=fs, OF r _ that all[OF that] rb[OF that]]) (auto simp: list_all_iff)
    from p k[OF en] k show ?thesis by (simp add: parity_iff)
  qed
qed

lemma step_readable:
  assumes i: "fst (initBasePath env) = Inr basePath" and r: "range_order languages order"
    and c: "Created_readable env"
    and n: "list_all (\<lambda>file. \<not> unreadable (fs (Join basePath file))) (map fst languages)"
  shows "list_all (\<lambda>file. \<not> unreadable (fst (run_command env order fs c) (Join basePath file)))
           (map fst languages)"
proof -
  from init_ok[OF i] obtain out where io: "initBasePath env = (Inr basePath, out)" ..
  have "\<not> unreadable (fst (run_command env order fs c) (Join basePath f))"
    if f: "f \<in> set (map fst languages)" for f
  proof -
    from f obtain langCode where l: "(f, langCode) \<in> set languages" by auto
    from n f have nf: "\<not> unreadable (fs (Join basePath f))" by (auto simp: list_all_iff)
    note w = saved_node_readable[OF c nf]
    show ?thesis
    proof (cases c)
      case (CmdAdd key val)
      show ?thesis
      proof (cases "exists (loadJSON fs (Join basePath ''en.json'')) key")
        case True
        then show ?thesis using nf by (simp add: CmdAdd runAdd_def io)
      next
        case False
        then have "fst (run_command env order fs c) = fst (for_range
            (\<lambda>(file, langCode) fs.
               processAddOrUpdate env fs (Join basePath file) key val (file = ''en.json'') langCode)
            order fs)"
          by (simp add: CmdAdd runAdd_def io split: prod.splits)
        then show ?thesis using nf w by (simp add: for_range_add_node[OF r l])
      qed
    next
      case CmdList
      then show ?thesis using nf by simp
    next
      case (CmdUpdate key val)
      show ?thesis
      proof (cases "exists (loadJSON fs (Join basePath ''en.json'')) key")
        case False
        then show ?thesis using nf by (simp add: CmdUpdate runUpdate_def io)
      next
        case True
        then have "fst (run_command env order fs c) = fst (for_range
            (\<lambda>(file, langCode) fs.
               processAddOrUpdate env fs (Join basePath file) key val (file = ''en.json'') langCode)
            order fs)"
          by (simp add: CmdUpdate runUpdate_def io split: prod.splits)
        then show ?thesis using nf w by (simp add: for_range_add_node[OF r l])
      qed
    next
      case (CmdRemove key)
      show ?thesis
      proof (cases "exists (loadJSON fs (Join basePath ''en.json'')) key")
        case False
        then show ?thesis using nf by (simp add: CmdRemove runRemove_def io)
      next
        case True
        then have "fst (run_command env order fs c) = fst (for_range (remove_in env basePath key) order fs)"
          by (simp add: CmdRemove runRemove_def io split: prod.splits)
        then show ?thesis using nf w by (simp add: for_range_remove_node[OF r l])
      qed
    qed
  qed
  then show ?thesis by (simp add: list_all_iff)
qed

lemma fs_write_only_nodes:
  "fs_write_only (Join base_w ''en.json'') = Absent"
  "fs_write_only (Join base_w ''km.json'') = Unreadable []"
  "fs_write_only (Join base_w ''zh.json'') = Absent"
  by (simp_all add: fs_write_only_def fs_empty_def Join_inject)

lemma catalog_of_k_hello: "catalog_of (File doc_k_hello) = [(''k'', ''hello'')]"
proof -
  have "catalog_of (File (saveJSON_bytes [(''k'', ''hello'')])) = [(''k'', ''hello'')]"
    unfolding catalog_of_saved[of "[(''k'', ''hello'')]", simplified]
    by (simp add: sorted_entries_def index_def entry_coerce_def store_all_def)
  then show ?thesis by (simp add: saveJSON_bytes_k_hello)
qed

text \<open>
  C1, as the spec has it: it fails where a managed document is a file that the program
  can write and not read. In the store \<open>fs_write_only\<close> every catalog loads as empty, so
  the key sets are equal; \<^verbatim>\<open>add k hello\<close> succeeds (the key is new, every \<open>saveJSON\<close>
  returns \<^verbatim>\<open>nil\<close>, the translation failing and falling back to English); afterwards
  \<^verbatim>\<open>en.json\<close> loads with the key and \<^verbatim>\<open>km.json\<close>, which holds the same bytes, still loads
  as empty.
\<close>

theorem key_parity_write_only_counterexample:
  "parity base_w fs_write_only
   \<and> all_succeed base_w fs_write_only [(env_w, languages, CmdAdd ''k'' ''hello'')]
   \<and> fst (runAdd env_w languages fs_write_only ''k'' ''hello'') (Join base_w ''en.json'') = File doc_k_hello
   \<and> fst (runAdd env_w languages fs_write_only ''k'' ''hello'') (Join base_w ''km.json'') = Unreadable doc_k_hello
   \<and> loadJSON (fst (runAdd env_w languages fs_write_only ''k'' ''hello'')) (Join base_w ''en.json'')
       = [(''k'', ''hello'')]
   \<and> loadJSON (fst (runAdd env_w languages fs_write_only ''k'' ''hello'')) (Join base_w ''km.json'') = []
   \<and> \<not> list_all (parity base_w) (run_sequence fs_write_only [(env_w, languages, CmdAdd ''k'' ''hello'')])"
proof -
  have l0: "loadJSON fs_write_only (Join base_w f) = []" for f
    by (simp add: loadJSON_def ReadFile_def fs_write_only_def fs_empty_def)
  have p: "parity base_w fs_write_only"
    by (simp add: parity_def l0 list_all_True)
  have i: "fst (initBasePath env_w) = Inr base_w" by (simp add: initBasePath_env_w)
  have r: "range_order languages languages" by (simp add: range_order_def languages_def)
  have e0: "\<not> exists (loadJSON fs_write_only (Join base_w ''en.json'')) ''k''"
    by (simp add: l0 exists_def)
  have a: "all_succeed base_w fs_write_only [(env_w, languages, CmdAdd ''k'' ''hello'')]"
    using i r e0 by (simp add: save_ok_env_w list_all_True)
  have run: "fst (runAdd env_w languages fs_write_only ''k'' ''hello'') = fst (for_range
            (\<lambda>(file, langCode) fs.
               processAddOrUpdate env_w fs (Join base_w file) ''k'' ''hello'' (file = ''en.json'') langCode)
            languages fs_write_only)"
    using e0 by (simp add: runAdd_def initBasePath_env_w split: prod.splits)
  have en: "fst (runAdd env_w languages fs_write_only ''k'' ''hello'') (Join base_w ''en.json'') = File doc_k_hello"
    unfolding run
    by (simp add: for_range_add_node[OF r languages_members(1)] saved_node_ok[OF save_ok_env_w]
        l0 stored_value_def saveJSON_bytes_k_hello fs_write_only_nodes write_node_env_w)
  have km: "fst (runAdd env_w languages fs_write_only ''k'' ''hello'') (Join base_w ''km.json'')
              = Unreadable doc_k_hello"
    unfolding run
    by (simp add: for_range_add_node[OF r languages_members(2)] saved_node_ok[OF save_ok_env_w]
        l0 stored_value_def googleTranslate_env_w saveJSON_bytes_k_hello
        fs_write_only_nodes write_node_def)
  have len: "loadJSON (fst (runAdd env_w languages fs_write_only ''k'' ''hello'')) (Join base_w ''en.json'')
       = [(''k'', ''hello'')]"
    by (simp add: loadJSON_catalog_of en catalog_of_k_hello)
  have lkm: "loadJSON (fst (runAdd env_w languages fs_write_only ''k'' ''hello'')) (Join base_w ''km.json'') = []"
    by (simp add: loadJSON_catalog_of km catalog_of_def)
  have "keys_of (loadJSON (fst (runAdd env_w languages fs_write_only ''k'' ''hello'')) (Join base_w ''km.json''))
          \<noteq> keys_of (loadJSON (fst (runAdd env_w languages fs_write_only ''k'' ''hello'')) (Join base_w ''en.json''))"
    by (simp add: len lkm keys_of_def)
  moreover have "''km.json'' \<in> set (map fst languages)" by (simp add: languages_def)
  ultimately have "\<not> parity base_w (fst (runAdd env_w languages fs_write_only ''k'' ''hello''))"
    unfolding parity_iff by blast
  then have n: "\<not> list_all (parity base_w) (run_sequence fs_write_only [(env_w, languages, CmdAdd ''k'' ''hello'')])"
    by simp
  from p a en km len lkm n show ?thesis by simp
qed

text \<open>
  C1, amended: cross-catalog key parity. Start from a store in which every managed
  catalog has the key set of \<^verbatim>\<open>en.json\<close> (an empty base directory, for instance) and no
  managed document is a file that the program cannot read, and run any sequence of
  add, update and remove (and list) in which each operation succeeds (the base
  directory is set up, the precondition on the key holds, and every \<open>saveJSON\<close> of the
  operation returns \<^verbatim>\<open>nil\<close>) and the files the program creates are readable to it; the
  languages may be visited in any order. Then after each operation every managed
  catalog has the key set of \<^verbatim>\<open>en.json\<close>.
\<close>

theorem key_parity_invariant:
  assumes "parity basePath fs" and "all_succeed basePath fs steps"
    and "readable_run basePath fs steps"
  shows "list_all (parity basePath) (run_sequence fs steps)"
  using assms
proof (induction steps arbitrary: fs)
  case Nil
  then show ?case by simp
next
  case (Cons step steps)
  obtain env order c where step: "step = (env, order, c)" by (cases step)
  from Cons.prems(2) have i: "fst (initBasePath env) = Inr basePath"
    and r: "range_order languages order" and s: "succeeds env basePath fs c"
    and rest: "all_succeed basePath (fst (run_command env order fs c)) steps"
    by (simp_all add: step)
  from Cons.prems(3) have c: "Created_readable env"
    and n: "list_all (\<lambda>file. \<not> unreadable (fs (Join basePath file))) (map fst languages)"
    and cs: "list_all (\<lambda>step. Created_readable (fst step)) steps"
    by (simp_all add: step readable_run_def)
  from step_parity[OF Cons.prems(1) i r s c n]
  have p': "parity basePath (fst (run_command env order fs c))" .
  from step_readable[OF i r c n, of c] cs
  have r': "readable_run basePath (fst (run_command env order fs c)) steps"
    by (simp add: readable_run_def)
  from Cons.IH[OF p' rest r'] p' show ?case by (simp add: step Let_def)
qed

lemma keys_after_runAdd:
  assumes i: "fst (initBasePath env) = Inr basePath" and r: "range_order languages order"
    and ne: "\<not> exists (loadJSON fs (Join basePath ''en.json'')) key"
    and ok: "save_ok env (Join basePath file)"
    and f: "file \<in> set (map fst languages)"
    and rb: "reads_back env (fs (Join basePath file))"
  shows "keys_of (loadJSON (fst (runAdd env order fs key val)) (Join basePath file))
           = coerce_utf8 ` insert key (keys_of (loadJSON fs (Join basePath file)))"
proof -
  from init_ok[OF i] obtain out where io: "initBasePath env = (Inr basePath, out)" ..
  have "fst (runAdd env order fs key val) = fst (for_range
            (\<lambda>(file, langCode) fs.
               processAddOrUpdate env fs (Join basePath file) key val (file = ''en.json'') langCode)
            order fs)"
    using ne by (simp add: runAdd_def io split: prod.splits)
  then show ?thesis using keys_after_add_or_update[where fs=fs, OF r ok f rb, of key val] by simp
qed

lemma keys_after_runUpdate:
  assumes i: "fst (initBasePath env) = Inr basePath" and r: "range_order languages order"
    and e: "exists (loadJSON fs (Join basePath ''en.json'')) key"
    and ok: "save_ok env (Join basePath file)"
    and f: "file \<in> set (map fst languages)"
    and rb: "reads_back env (fs (Join basePath file))"
  shows "keys_of (loadJSON (fst (runUpdate env order fs key val)) (Join basePath file))
           = coerce_utf8 ` insert key (keys_of (loadJSON fs (Join basePath file)))"
proof -
  from init_ok[OF i] obtain out where io: "initBasePath env = (Inr basePath, out)" ..
  have "fst (runUpdate env order fs key val) = fst (for_range
            (\<lambda>(file, langCode) fs.
               processAddOrUpdate env fs (Join basePath file) key val (file = ''en.json'') langCode)
            order fs)"
    using e by (simp add: runUpdate_def io split: prod.splits)
  then show ?thesis using keys_after_add_or_update[where fs=fs, OF r ok f rb, of key val] by simp
qed

lemma all_succeed_steps_w: "all_succeed base_w fs_empty steps_w"
proof -
  have i: "fst (initBasePath env_w) = Inr base_w" by (simp add: initBasePath_env_w)
  have r1: "range_order languages languages" by (simp add: range_order_def languages_def)
  have r2: "range_order languages (rev languages)" by (auto simp: range_order_def languages_def)
  have c: "Created_readable env_w" by (simp add: env_w_def)
  have ok: "list_all (\<lambda>file. save_ok env_w (Join base_w file)) (map fst languages)"
    by (simp add: list_all_iff save_ok_env_w)
  define fs1 where "fs1 = fst (runAdd env_w languages fs_empty ''k'' ''hello'')"
  define fs2 where "fs2 = fst (runUpdate env_w (rev languages) fs1 ''k'' ''hi'')"
  have n0: "list_all (\<lambda>file. \<not> unreadable (fs_empty (Join base_w file))) (map fst languages)"
    by (simp add: fs_empty_def list_all_True)
  from step_readable[OF i r1 c n0, of "CmdAdd ''k'' ''hello''"]
  have n1: "list_all (\<lambda>file. \<not> unreadable (fs1 (Join base_w file))) (map fst languages)"
    by (simp add: fs1_def)
  have rb0: "reads_back env_w (fs_empty (Join base_w ''en.json''))"
    by (simp add: reads_back_def fs_empty_def env_w_def)
  from n1 en_in_languages have rb1: "reads_back env_w (fs1 (Join base_w ''en.json''))"
    by (auto simp: reads_back_iff[OF c] list_all_iff)
  have e0: "\<not> exists (loadJSON fs_empty (Join base_w ''en.json'')) ''k''"
    by (simp add: loadJSON_absent fs_empty_def exists_def)
  have e1: "exists (loadJSON fs1 (Join base_w ''en.json'')) ''k''"
    unfolding fs1_def exists_keys_of
    by (simp add: keys_after_runAdd[OF i r1 e0 save_ok_env_w en_in_languages rb0])
  have e2: "exists (loadJSON fs2 (Join base_w ''en.json'')) ''k''"
    unfolding fs2_def exists_keys_of
    by (simp add: keys_after_runUpdate[OF i r2 e1 save_ok_env_w en_in_languages rb1])
  show ?thesis
    using i r1 r2 ok e0 e1 e2 by (simp add: steps_w_def fs1_def fs2_def save_ok_env_w list_all_True)
qed

theorem key_parity_invariant_witness:
  "parity base_w fs_empty \<and> all_succeed base_w fs_empty steps_w
   \<and> readable_run base_w fs_empty steps_w
   \<and> list_all (parity base_w) (run_sequence fs_empty steps_w)"
proof -
  have p: "parity base_w fs_empty"
    by (simp add: parity_def loadJSON_absent fs_empty_def list_all_True)
  have r: "readable_run base_w fs_empty steps_w"
    by (simp add: readable_run_def fs_empty_def list_all_True steps_w_def env_w_def)
  from key_parity_invariant[OF p all_succeed_steps_w r] p all_succeed_steps_w r
  show ?thesis by simp
qed

section \<open>Further properties of the operations\<close>

text \<open>
  What loading after saving returns for any catalog, valid UTF-8 or not, when the write
  is accepted and the document can be read back: the entries in ascending key order, each key and value coerced to UTF-8 (a later entry replacing an
  earlier one with the same coerced key); the key set is the coerced image of the
  original key set.
\<close>

theorem load_after_save:
  assumes "distinct (map fst m)" and "snd (saveJSON env fs path m) = None"
    and "reads_back env (fs path)"
  shows "loadJSON (fst (saveJSON env fs path m)) path = store_all [] (map entry_coerce (sorted_entries m))
       \<and> keys_of (loadJSON (fst (saveJSON env fs path m)) path) = coerce_utf8 ` keys_of m"
  by (simp add: saveJSON_written[OF assms(2)] write_node_reads_back[OF assms(3)] loadJSON_catalog_of
      catalog_of_saved[OF assms(1)]
      keys_of_catalog_of_saved[OF assms(1), unfolded catalog_of_saved[OF assms(1)]])

theorem load_after_save_witness:
  "distinct (map fst m_mixed)
   \<and> snd (saveJSON env_w fs_empty (Join base_w ''km.json'') m_mixed) = None
   \<and> reads_back env_w (fs_empty (Join base_w ''km.json''))
   \<and> loadJSON (fst (saveJSON env_w fs_empty (Join base_w ''km.json'') m_mixed)) (Join base_w ''km.json'')
       = [(''a'', ''x''), (''b'', [CHR 0xEF, CHR 0xBF, CHR 0xBD])]"
proof -
  have d: "distinct (map fst m_mixed)" by (simp add: m_mixed_def)
  have s: "snd (saveJSON env_w fs_empty (Join base_w ''km.json'') m_mixed) = None"
    by (simp add: saveJSON_def WriteFile_def env_w_def)
  have e: "store_all [] (map entry_coerce (sorted_entries m_mixed))
             = [(''a'', ''x''), (''b'', [CHR 0xEF, CHR 0xBF, CHR 0xBD])]"
    by (simp add: m_mixed_def sorted_entries_def index_def entry_coerce_def store_all_def
        DecodeRune.simps lead_size_def EncodeRune_RuneError)
  have r: "reads_back env_w (fs_empty (Join base_w ''km.json''))"
    by (simp add: reads_back_def fs_empty_def env_w_def)
  from load_after_save[OF d s r] d s r e show ?thesis by simp
qed

text \<open>
  Update on a key that the reference catalog does not hold prints the "does not exist"
  message and changes no file.
\<close>

theorem update_missing_key_rejected:
  assumes "fst (initBasePath env) = Inr basePath"
    and "\<not> exists (loadJSON fs (Join basePath ''en.json'')) key"
  shows "runUpdate env order fs key val =
           (fs, snd (initBasePath env) @ warning_sign @ ''  Key '' @ [sq] @ key @ [sq]
                  @ '' does not exist. Use '' @ [sq] @ ''add'' @ [sq]
                  @ '' command to create it.'' @ [nl])"
proof -
  obtain r out where io: "initBasePath env = (r, out)" by (cases "initBasePath env")
  with assms(1) have r: "r = Inr basePath" by simp
  show ?thesis using assms(2) by (simp add: runUpdate_def io r)
qed

theorem update_missing_key_rejected_witness:
  "fst (initBasePath env_w) = Inr base_w
   \<and> \<not> exists (loadJSON fs_kv (Join base_w ''en.json'')) ''other''
   \<and> fst (runUpdate env_w languages fs_kv ''other'' ''x'') = fs_kv"
proof -
  have h1: "fst (initBasePath env_w) = Inr base_w" by (simp add: initBasePath_env_w)
  have h2: "\<not> exists (loadJSON fs_kv (Join base_w ''en.json'')) ''other''"
    by (simp add: loadJSON_fs_kv exists_def)
  from update_missing_key_rejected[OF h1 h2, of languages "''x''"] h1 h2
  show ?thesis by simp
qed

text \<open>
  Remove on a key that the reference catalog does not hold prints the "does not exist"
  message and changes no file (so removing the same key twice changes nothing the
  second time).
\<close>

theorem remove_missing_key_rejected:
  assumes "fst (initBasePath env) = Inr basePath"
    and "\<not> exists (loadJSON fs (Join basePath ''en.json'')) key"
  shows "runRemove env order fs key =
           (fs, snd (initBasePath env) @ warning_sign @ ''  Key '' @ [sq] @ key @ [sq]
                  @ '' does not exist'' @ [nl])"
proof -
  obtain r out where io: "initBasePath env = (r, out)" by (cases "initBasePath env")
  with assms(1) have r: "r = Inr basePath" by simp
  show ?thesis using assms(2) by (simp add: runRemove_def io r)
qed

theorem remove_missing_key_rejected_witness:
  "fst (initBasePath env_w) = Inr base_w
   \<and> \<not> exists (loadJSON fs_kv (Join base_w ''en.json'')) ''other''
   \<and> fst (runRemove env_w languages fs_kv ''other'') = fs_kv"
proof -
  have h1: "fst (initBasePath env_w) = Inr base_w" by (simp add: initBasePath_env_w)
  have h2: "\<not> exists (loadJSON fs_kv (Join base_w ''en.json'')) ''other''"
    by (simp add: loadJSON_fs_kv exists_def)
  from remove_missing_key_rejected[OF h1 h2, of languages] h1 h2
  show ?thesis by simp
qed

text \<open>
  Add treats each language on its own, in whatever order the languages are visited:
  the document of a language whose write is accepted holds the loaded catalog with the
  key set to the value stored for that language, whatever happens to the writes for the
  other languages; a refused write for one language stops none of the others.
\<close>

theorem add_isolated_per_language:
  assumes i: "fst (initBasePath env) = Inr basePath" and r: "range_order languages order"
    and ne: "\<not> exists (loadJSON fs (Join basePath ''en.json'')) key"
    and f: "(file, langCode) \<in> set languages"
    and ok: "save_ok env (Join basePath file)"
  shows "fst (runAdd env order fs key val) (Join basePath file)
           = write_node env (fs (Join basePath file))
               (saveJSON_bytes
                  (AList.update key (stored_value env val (file = ''en.json'') langCode)
                     (loadJSON fs (Join basePath file))))"
proof -
  from init_ok[OF i] obtain out where io: "initBasePath env = (Inr basePath, out)" ..
  have "fst (runAdd env order fs key val) = fst (for_range
            (\<lambda>(file, langCode) fs.
               processAddOrUpdate env fs (Join basePath file) key val (file = ''en.json'') langCode)
            order fs)"
    using ne by (simp add: runAdd_def io split: prod.splits)
  then show ?thesis by (simp add: for_range_add_node[OF r f] saved_node_ok[OF ok])
qed

theorem add_isolated_per_language_witness:
  "fst (initBasePath env_km_readonly) = Inr base_w \<and> range_order languages (rev languages)
   \<and> \<not> exists (loadJSON fs_empty (Join base_w ''en.json'')) ''k''
   \<and> (''zh.json'', ''zh-CN'') \<in> set languages
   \<and> save_ok env_km_readonly (Join base_w ''zh.json'')
   \<and> fst (runAdd env_km_readonly (rev languages) fs_empty ''k'' ''hello'') (Join base_w ''zh.json'')
       = File doc_k_sua"
proof -
  have i: "fst (initBasePath env_km_readonly) = Inr base_w"
    by (simp add: initBasePath_def env_km_readonly_def env_reply_def env_w_def path_simps)
  have r: "range_order languages (rev languages)" by (auto simp: range_order_def languages_def)
  have ne: "\<not> exists (loadJSON fs_empty (Join base_w ''en.json'')) ''k''"
    by (simp add: loadJSON_absent fs_empty_def exists_def)
  have f: "(''zh.json'', ''zh-CN'') \<in> set languages" by (simp add: languages_def)
  have ok: "save_ok env_km_readonly (Join base_w ''zh.json'')"
    by (simp add: save_ok_def env_km_readonly_def env_reply_def env_w_def Join_inject)
  have v: "stored_value env_km_readonly ''hello'' False ''zh-CN'' = ''sua''"
    by (simp add: stored_value_def googleTranslate_env_km_readonly)
  have l: "loadJSON fs_empty (Join base_w ''zh.json'') = []"
    by (simp add: loadJSON_absent fs_empty_def)
  have w: "write_node env_km_readonly (fs_empty (Join base_w ''zh.json'')) b = File b" for b
    by (simp add: write_node_def fs_empty_def env_km_readonly_def env_reply_def env_w_def)
  from add_isolated_per_language[OF i r ne f ok, of "''hello''"] i r ne f ok
  show ?thesis by (simp add: v l w saveJSON_bytes_k_sua)
qed

lemma initBasePath_env_sua: "initBasePath env_sua = (Inr base_w, folder_sign @ '' Using base path: '' @ base_w @ [nl])"
  by (simp add: initBasePath_def env_sua_def env_reply_def env_w_def path_simps)

lemma write_node_env_sua:
  "write_node env_sua Absent b = File b" "write_node env_sua (File a) b = File b"
  by (simp_all add: write_node_def env_sua_def env_reply_def env_w_def)

lemma save_ok_env_sua: "save_ok env_sua path"
  by (simp add: save_ok_def env_sua_def env_reply_def env_w_def)

lemma googleTranslate_env_sua: "googleTranslate env_sua text lang = Inr ''sua''"
  by (simp add: googleTranslate_def env_sua_def env_reply_def env_w_def reply_sua_def
      Unmarshal_slice_def TrimSpace_sua)

lemma saveJSON_bytes_greeting:
  "list_all (\<lambda>c. htmlSafe (byte c)) v \<Longrightarrow> saveJSON_bytes [(''greeting'', v)] = doc_greeting v"
proof -
  assume "list_all (\<lambda>c. htmlSafe (byte c)) v"
  then have "appendString_body v = v"
    by (induction v) (auto simp: escape_byte_def htmlSafe_def)
  then show ?thesis
    by (simp add: saveJSON_bytes_def MarshalIndent_def member_line_def appendString_def index_def
        escape_byte_def htmlSafe_def doc_greeting_def quoted_def)
qed

lemma catalog_of_greeting:
  "list_all (\<lambda>c. htmlSafe (byte c)) v \<Longrightarrow> catalog_of (File (doc_greeting v)) = [(''greeting'', v)]"
proof -
  assume a: "list_all (\<lambda>c. htmlSafe (byte c)) v"
  then have "coerce_utf8 v = v" by (induction v) (auto simp: htmlSafe_def)
  then have "store_all [] (map entry_coerce (sorted_entries [(''greeting'', v)])) = [(''greeting'', v)]"
    by (simp add: sorted_entries_def index_def entry_coerce_def store_all_def)
  then show ?thesis
    using catalog_of_saved[of "[(''greeting'', v)]"] by (simp add: saveJSON_bytes_greeting[OF a])
qed

lemma catalog_of_empty_object: "catalog_of (File ''{}'') = []"
  by (simp add: catalog_of_def Unmarshal_def lex_char del: lex.simps(2))

lemma saveJSON_bytes_Nil: "saveJSON_bytes [] = ''{}''"
  by (simp add: saveJSON_bytes_def MarshalIndent_def)

lemma scenario_added_nodes:
  "managed_nodes scenario_added
     = [File (doc_greeting ''Hello''), File (doc_greeting ''sua''), File (doc_greeting ''sua'')]"
proof -
  have e: "\<not> exists (loadJSON fs_empty (Join base_w ''en.json'')) ''greeting''"
    by (simp add: loadJSON_absent fs_empty_def exists_def)
  have run: "scenario_added = fst (for_range
            (\<lambda>(file, langCode) fs.
               processAddOrUpdate env_sua fs (Join base_w file) ''greeting'' ''Hello'' (file = ''en.json'') langCode)
            languages fs_empty)"
    using e by (simp add: scenario_added_def runAdd_def initBasePath_env_sua split: prod.splits)
  have l: "loadJSON fs_empty p = []" for p by (simp add: loadJSON_absent fs_empty_def)
  have n: "fs_empty p = Absent" for p by (simp add: fs_empty_def)
  have en: "scenario_added (Join base_w ''en.json'') = File (doc_greeting ''Hello'')"
    unfolding run
    by (simp add: for_range_add_node[OF range_order_refl languages_members(1)]
        save_ok_env_sua l stored_value_def saveJSON_bytes_greeting htmlSafe_def n write_node_env_sua saved_node_ok[OF save_ok_env_sua])
  have km: "scenario_added (Join base_w ''km.json'') = File (doc_greeting ''sua'')"
    unfolding run
    by (simp add: for_range_add_node[OF range_order_refl languages_members(2)]
        save_ok_env_sua l stored_value_def googleTranslate_env_sua saveJSON_bytes_greeting htmlSafe_def
        n write_node_env_sua saved_node_ok[OF save_ok_env_sua])
  have zh: "scenario_added (Join base_w ''zh.json'') = File (doc_greeting ''sua'')"
    unfolding run
    by (simp add: for_range_add_node[OF range_order_refl languages_members(3)]
        save_ok_env_sua l stored_value_def googleTranslate_env_sua saveJSON_bytes_greeting htmlSafe_def
        n write_node_env_sua saved_node_ok[OF save_ok_env_sua])
  show ?thesis by (simp add: managed_nodes_def languages_def en km zh)
qed

lemma scenario_updated_nodes:
  "managed_nodes scenario_updated
     = [File (doc_greeting ''Hi''), File (doc_greeting ''sua''), File (doc_greeting ''sua'')]"
proof -
  from scenario_added_nodes have n: "scenario_added (Join base_w ''en.json'') = File (doc_greeting ''Hello'')"
    "scenario_added (Join base_w ''km.json'') = File (doc_greeting ''sua'')"
    "scenario_added (Join base_w ''zh.json'') = File (doc_greeting ''sua'')"
    by (simp_all add: managed_nodes_def languages_def)
  note a = n
  have l: "loadJSON scenario_added (Join base_w ''en.json'') = [(''greeting'', ''Hello'')]"
    "loadJSON scenario_added (Join base_w ''km.json'') = [(''greeting'', ''sua'')]"
    "loadJSON scenario_added (Join base_w ''zh.json'') = [(''greeting'', ''sua'')]"
    by (simp_all add: loadJSON_catalog_of a catalog_of_greeting htmlSafe_def)
  have e: "exists (loadJSON scenario_added (Join base_w ''en.json'')) ''greeting''"
    by (simp add: l exists_def)
  have run: "scenario_updated = fst (for_range
            (\<lambda>(file, langCode) fs.
               processAddOrUpdate env_sua fs (Join base_w file) ''greeting'' ''Hi'' (file = ''en.json'') langCode)
            (rev languages) scenario_added)"
    using e by (simp add: scenario_updated_def runUpdate_def initBasePath_env_sua split: prod.splits)
  have en: "scenario_updated (Join base_w ''en.json'') = File (doc_greeting ''Hi'')"
    unfolding run
    by (simp add: for_range_add_node[OF range_order_rev languages_members(1)]
        save_ok_env_sua l stored_value_def saveJSON_bytes_greeting htmlSafe_def n write_node_env_sua saved_node_ok[OF save_ok_env_sua])
  have km: "scenario_updated (Join base_w ''km.json'') = File (doc_greeting ''sua'')"
    unfolding run
    by (simp add: for_range_add_node[OF range_order_rev languages_members(2)]
        save_ok_env_sua l stored_value_def googleTranslate_env_sua saveJSON_bytes_greeting htmlSafe_def
        n write_node_env_sua saved_node_ok[OF save_ok_env_sua])
  have zh: "scenario_updated (Join base_w ''zh.json'') = File (doc_greeting ''sua'')"
    unfolding run
    by (simp add: for_range_add_node[OF range_order_rev languages_members(3)]
        save_ok_env_sua l stored_value_def googleTranslate_env_sua saveJSON_bytes_greeting htmlSafe_def
        n write_node_env_sua saved_node_ok[OF save_ok_env_sua])
  show ?thesis by (simp add: managed_nodes_def languages_def en km zh)
qed

lemma scenario_removed_nodes:
  "managed_nodes scenario_removed = [File ''{}'', File ''{}'', File ''{}'']"
proof -
  from scenario_updated_nodes have a: "scenario_updated (Join base_w ''en.json'') = File (doc_greeting ''Hi'')"
    "scenario_updated (Join base_w ''km.json'') = File (doc_greeting ''sua'')"
    "scenario_updated (Join base_w ''zh.json'') = File (doc_greeting ''sua'')"
    by (simp_all add: managed_nodes_def languages_def)
  have l: "loadJSON scenario_updated (Join base_w ''en.json'') = [(''greeting'', ''Hi'')]"
    "loadJSON scenario_updated (Join base_w ''km.json'') = [(''greeting'', ''sua'')]"
    "loadJSON scenario_updated (Join base_w ''zh.json'') = [(''greeting'', ''sua'')]"
    by (simp_all add: loadJSON_catalog_of a catalog_of_greeting htmlSafe_def)
  have e: "exists (loadJSON scenario_updated (Join base_w ''en.json'')) ''greeting''"
    by (simp add: l exists_def)
  have run: "scenario_removed = fst (for_range (remove_in env_sua base_w ''greeting'') languages scenario_updated)"
    using e by (simp add: scenario_removed_def runRemove_def initBasePath_env_sua split: prod.splits)
  have en: "scenario_removed (Join base_w ''en.json'') = File ''{}''"
    unfolding run
    by (simp add: for_range_remove_node[OF range_order_refl languages_members(1)]
        save_ok_env_sua l exists_def saveJSON_bytes_Nil a write_node_env_sua saved_node_ok[OF save_ok_env_sua])
  have km: "scenario_removed (Join base_w ''km.json'') = File ''{}''"
    unfolding run
    by (simp add: for_range_remove_node[OF range_order_refl languages_members(2)]
        save_ok_env_sua l exists_def saveJSON_bytes_Nil a write_node_env_sua saved_node_ok[OF save_ok_env_sua])
  have zh: "scenario_removed (Join base_w ''zh.json'') = File ''{}''"
    unfolding run
    by (simp add: for_range_remove_node[OF range_order_refl languages_members(3)]
        save_ok_env_sua l exists_def saveJSON_bytes_Nil a write_node_env_sua saved_node_ok[OF save_ok_env_sua])
  show ?thesis by (simp add: managed_nodes_def languages_def en km zh)
qed

text \<open>
  The scenario: after the add, the reference document holds \<^verbatim>\<open>greeting\<close> with \<^verbatim>\<open>Hello\<close>
  and the other two hold it with the translation, and list prints exactly one entry;
  after the update the value of every document has changed accordingly; after the
  remove no document holds the key, and list reports that there are no keys.
\<close>

theorem scenario_add_list_update_remove:
  "managed_nodes scenario_added
     = [File (doc_greeting ''Hello''), File (doc_greeting ''sua''), File (doc_greeting ''sua'')]
   \<and> runList env_sua scenario_added
       = folder_sign @ '' Using base path: '' @ base_w @ [nl]
           @ clipboard_sign @ '' Found 1 i18n keys:'' @ [nl, nl] @ ''  greeting: Hello'' @ [nl]
   \<and> managed_nodes scenario_updated
       = [File (doc_greeting ''Hi''), File (doc_greeting ''sua''), File (doc_greeting ''sua'')]
   \<and> managed_nodes scenario_removed = [File ''{}'', File ''{}'', File ''{}'']
   \<and> runList env_sua scenario_removed
       = folder_sign @ '' Using base path: '' @ base_w @ [nl]
           @ mailbox_sign @ '' No i18n keys found'' @ [nl]"
proof -
  from scenario_added_nodes have a: "scenario_added (Join base_w ''en.json'') = File (doc_greeting ''Hello'')"
    by (simp add: managed_nodes_def languages_def)
  from scenario_removed_nodes have r: "scenario_removed (Join base_w ''en.json'') = File ''{}''"
    by (simp add: managed_nodes_def languages_def)
  have d1: "decimal (Suc 0) = ''1''" by (simp add: decimal.simps char_of_def bit_Suc_0_iff)
  have l1: "runList env_sua scenario_added
       = folder_sign @ '' Using base path: '' @ base_w @ [nl]
           @ clipboard_sign @ '' Found 1 i18n keys:'' @ [nl, nl] @ ''  greeting: Hello'' @ [nl]"
    by (simp add: runList_def initBasePath_env_sua loadJSON_catalog_of a catalog_of_greeting
        htmlSafe_def d1 index_def)
  have l2: "runList env_sua scenario_removed
       = folder_sign @ '' Using base path: '' @ base_w @ [nl]
           @ mailbox_sign @ '' No i18n keys found'' @ [nl]"
    by (simp add: runList_def initBasePath_env_sua loadJSON_catalog_of r catalog_of_empty_object)
  from scenario_added_nodes scenario_updated_nodes scenario_removed_nodes l1 l2
  show ?thesis by simp
qed

end
